theory Spec2Isabelle
  imports Complex_Main "HOL-Library.List_Lexorder" "HOL-Library.Char_ord"
begin

section \<open>Python values used by the engine\<close>

text \<open>
  The exceptions of the source that the model keeps as values. \<open>KeyboardInterrupt\<close> is
  not among them: it is delivered from outside and is modelled as an event of the
  scheduler (section on the job).
\<close>

datatype py_error = ValueError | TypeError | IndexError | KeyError | FileNotFoundError | OSError

subsection \<open>Strings: \<open>format\<close>, \<open>str.split\<close> and \<open>int\<close>\<close>

definition is_digit :: "char \<Rightarrow> bool" where
  "is_digit c = (48 \<le> (of_char c :: nat) \<and> (of_char c :: nat) \<le> 57)"

definition digit_val :: "char \<Rightarrow> nat" where
  "digit_val c = (of_char c :: nat) - 48"

definition digit_char :: "nat \<Rightarrow> char" where
  "digit_char d = char_of (48 + d)"

text \<open>The decimal digits of a natural number, most significant first.\<close>

fun digits_of :: "nat \<Rightarrow> string" where
  "digits_of n = (if n < 10 then [digit_char n] else digits_of (n div 10) @ [digit_char (n mod 10)])"

declare digits_of.simps [simp del]

text \<open>
  Python's format specification \<open>0{w}d\<close> on an integer (\<open>f"{i:02d}"\<close>, \<open>f"{i:04d}"\<close>):
  the sign comes first, then zeros fill the field up to the width \<open>w\<close>, which counts the
  sign; a number with more digits than the width is written in full.
\<close>

definition zfill :: "nat \<Rightarrow> string \<Rightarrow> string" where
  "zfill w s = replicate (w - length s) (CHR ''0'') @ s"

definition format_0d :: "nat \<Rightarrow> int \<Rightarrow> string" where
  "format_0d w i =
     (if i < 0 then CHR ''-'' # zfill (w - 1) (digits_of (nat (- i)))
      else zfill w (digits_of (nat i)))"

text \<open>\<open>s.split(sep)\<close> with a one-character separator: every occurrence splits.\<close>

fun split_acc :: "char \<Rightarrow> string \<Rightarrow> string \<Rightarrow> string list" where
  "split_acc sep acc [] = [rev acc]"
| "split_acc sep acc (c # cs) =
     (if c = sep then rev acc # split_acc sep [] cs else split_acc sep (c # acc) cs)"

definition split :: "char \<Rightarrow> string \<Rightarrow> string list" where
  "split sep s = split_acc sep [] s"

text \<open>
  \<open>int(s)\<close> on a string: surrounding whitespace is stripped, one sign is allowed, then
  decimal digits, where single underscores may stand between digits. Anything else raises
  \<open>ValueError\<close> (here \<open>None\<close>).

  A \<open>char\<close> is a code point below 256. Among these \<open>int\<close> strips the ASCII whitespace
  9 to 13 and 32 and the two non-ASCII spaces 133 (next line) and 160 (no-break space);
  it does not strip the separators 28 to 31, although \<open>str.isspace\<close> holds of them, and
  the only decimal digits are \<open>0\<close> to \<open>9\<close>. The interpreter is taken without a limit on
  the length of a decimal string (\<open>sys.get_int_max_str_digits() == 0\<close>; interpreters
  before 3.11 have none).
\<close>

definition is_space :: "char \<Rightarrow> bool" where
  "is_space c = ((of_char c :: nat) \<in> {9, 10, 11, 12, 13, 32, 133, 160})"

definition strip :: "string \<Rightarrow> string" where
  "strip s = rev (dropWhile is_space (rev (dropWhile is_space s)))"

fun after_digit :: "nat \<Rightarrow> string \<Rightarrow> nat option" where
  "after_digit acc [] = Some acc"
| "after_digit acc (c # cs) =
     (if is_digit c then after_digit (acc * 10 + digit_val c) cs
      else if c = CHR ''_'' then
        (case cs of
           [] \<Rightarrow> None
         | d # ds \<Rightarrow> if is_digit d then after_digit (acc * 10 + digit_val d) ds else None)
      else None)"

definition py_digits :: "string \<Rightarrow> nat option" where
  "py_digits s =
     (case s of [] \<Rightarrow> None
      | c # cs \<Rightarrow> if is_digit c then after_digit (digit_val c) cs else None)"

definition py_int :: "string \<Rightarrow> int option" where
  "py_int s =
     (case strip s of
        [] \<Rightarrow> None
      | c # cs \<Rightarrow>
          if c = CHR ''-'' then map_option (\<lambda>n. - int n) (py_digits cs)
          else if c = CHR ''+'' then map_option int (py_digits cs)
          else map_option int (py_digits (c # cs)))"


text \<open>The value of a digit string read from the left, starting from \<open>acc\<close> (what
  \<open>after_digit\<close> computes on a string of digits; used to state that).\<close>

definition dec_val :: "nat \<Rightarrow> string \<Rightarrow> nat" where
  "dec_val acc s = foldl (\<lambda>a c. a * 10 + digit_val c) acc s"

subsection \<open>Arrays\<close>

text \<open>
  A numpy array: its shape and its elements in row-major (C) order. \<open>float32\<close> pixels are
  idealised as reals; no claim below depends on rounding.
\<close>

record 'a ndarray =
  shape :: "nat list"
  elems :: "'a list"

definition well_shaped :: "'a ndarray \<Rightarrow> bool" where
  "well_shaped a = (length (elems a) = prod_list (shape a))"

text \<open>
  Indexing a Python sequence: \<open>xs[i]\<close> for \<open>i\<close> from 0, \<open>xs[len(xs) + i]\<close> for a negative
  \<open>i\<close>, and \<open>IndexError\<close> outside.
\<close>

definition py_index :: "'a list \<Rightarrow> int \<Rightarrow> py_error + 'a" where
  "py_index xs i =
     (if 0 \<le> i \<and> i < int (length xs) then Inr (xs ! nat i)
      else if i < 0 \<and> - int (length xs) \<le> i then Inr (xs ! nat (int (length xs) + i))
      else Inl IndexError)"

section \<open>The cutter (\<open>cuts.py\<close>): the keys of a cutout archive\<close>

text \<open>
  A catalog row with the columns \<open>cut_image\<close> reads. \<open>NUMBER\<close> and \<open>EXT_NUMBER\<close> are
  the catalog's integer columns; \<open>EXT_NUMBER\<close> may be absent. Any other column that an
  extra filter names is read through \<open>column\<close>.
\<close>

record row =
  X_IMAGE :: real
  Y_IMAGE :: real
  CLASS_STAR :: real
  NUMBER :: int
  EXT_NUMBER :: "int option"
  column :: "string \<Rightarrow> real"

record hdu =
  NAXIS1 :: real
  NAXIS2 :: real
  hdu_data :: "real ndarray"

text \<open>One group of a cutout archive: the datasets \<open>obj\<close>, \<open>seg\<close> and \<open>rms\<close>.\<close>

record cutout =
  obj :: "real ndarray"
  seg :: "bool ndarray"
  rms :: "real ndarray"

text \<open>
  An HDF5 archive is kept as an association list from keys to entries, in the order in
  which \<open>keys()\<close> lists them.
\<close>

type_synonym 'a h5file = "(string \<times> 'a) list"

text \<open>
  The image-processing routines the cutter calls (astropy's \<open>Cutout2D\<close>, the mask cleaning
  built from \<open>scipy.ndimage\<close>, the centroid shift) are parameters: no claim depends on the
  pixels they return.
\<close>

record cut_lib =
  Cutout2D :: "real ndarray \<Rightarrow> real \<times> real \<Rightarrow> nat \<Rightarrow> real ndarray"
  clean_mask :: "bool ndarray \<Rightarrow> bool ndarray"
  recenter :: "cutout \<Rightarrow> cutout"

record cutter =
  margin :: real
  max_stellarity :: real
  image_size :: nat
  centroids :: bool
  extra_filters :: "(string \<times> real \<times> real) list"

definition condition :: "cutter \<Rightarrow> row \<Rightarrow> hdu \<Rightarrow> bool" where
  "condition self r header =
     (let inside_x = (margin self < X_IMAGE r \<and> X_IMAGE r < NAXIS1 header - margin self);
          inside_y = (margin self < Y_IMAGE r \<and> Y_IMAGE r < NAXIS2 header - margin self);
          is_galaxy = (if max_stellarity self \<ge> 1 then True
                       else CLASS_STAR r < max_stellarity self)
      in list_all id
           ([inside_x, inside_y, is_galaxy] @
            map (\<lambda>(param, lo, hi). lo < column r param \<and> column r param < hi)
              (extra_filters self)))"

definition cut_object :: "cutter \<Rightarrow> cut_lib \<Rightarrow> hdu list \<Rightarrow> row \<Rightarrow> int \<Rightarrow> py_error + real ndarray" where
  "cut_object self lib fits_data r ext_number =
     (case py_index fits_data ext_number of
        Inl e \<Rightarrow> Inl e
      | Inr h \<Rightarrow> Inr (Cutout2D lib (hdu_data h) (X_IMAGE r - 1, Y_IMAGE r - 1) (image_size self)))"

text \<open>\<open>np.isclose(a, b)\<close> with numpy's default tolerances.\<close>

definition isclose :: "real \<Rightarrow> real \<Rightarrow> bool" where
  "isclose a b = (\<bar>a - b\<bar> \<le> 1 / 10 ^ 8 + (1 / 10 ^ 5) * \<bar>b\<bar>)"

text \<open>The key under which \<open>cut_image\<close> stores an object.\<close>

definition object_id :: "int \<Rightarrow> int \<Rightarrow> string" where
  "object_id ext_number numb = format_0d 2 ext_number @ ''_'' @ format_0d 4 numb"

text \<open>\<open>create_group\<close> refuses a key the archive already has.\<close>

definition create_group :: "'a h5file \<Rightarrow> string \<Rightarrow> 'a \<Rightarrow> py_error + 'a h5file" where
  "create_group h5 k v = (if k \<in> set (map fst h5) then Inl ValueError else Inr (h5 @ [(k, v)]))"

text \<open>
  The body of the loop of \<open>cut_image\<close> for one catalog row, on the archive written so
  far: a row that fails the condition, or whose cutout holds a hidden NaN, leaves the
  archive as it is. The extension number is the row's \<open>EXT_NUMBER\<close> when the catalog has
  that column, and 0 otherwise.
\<close>

definition ext_number_of :: "row \<Rightarrow> int" where
  "ext_number_of r = (case EXT_NUMBER r of Some e \<Rightarrow> e | None \<Rightarrow> 0)"

definition cut_row :: "cutter \<Rightarrow> cut_lib \<Rightarrow> hdu list \<Rightarrow> hdu list \<Rightarrow> hdu list \<Rightarrow> row \<Rightarrow>
    cutout h5file \<Rightarrow> py_error + cutout h5file" where
  "cut_row self lib sg ob noise r h5 =
     (let ext_number = ext_number_of r in
      case py_index ob ext_number of
        Inl e \<Rightarrow> Inl e
      | Inr h \<Rightarrow>
          (if condition self r h then
            (case cut_object self lib ob r ext_number of
               Inl e \<Rightarrow> Inl e
             | Inr obj_cut \<Rightarrow>
            (case cut_object self lib sg r ext_number of
               Inl e \<Rightarrow> Inl e
             | Inr seg_cut \<Rightarrow>
            (case cut_object self lib noise r ext_number of
               Inl e \<Rightarrow> Inl e
             | Inr rms_cut \<Rightarrow>
               (if list_ex (\<lambda>x. isclose x (- (10 ^ 30))) (elems obj_cut) then Inr h5
                else
                 (let mask = clean_mask lib
                        \<lparr>shape = shape seg_cut,
                         elems = map (\<lambda>x. x = real_of_int (NUMBER r)) (elems seg_cut)\<rparr>;
                      c0 = \<lparr>obj = obj_cut, seg = mask, rms = rms_cut\<rparr>;
                      c = (if centroids self then recenter lib c0 else c0)
                  in create_group h5 (object_id ext_number (NUMBER r)) c)))))
          else Inr h5))"

text \<open>The loop over the catalog: the first exception ends it.\<close>

fun cut_rows :: "cutter \<Rightarrow> cut_lib \<Rightarrow> hdu list \<Rightarrow> hdu list \<Rightarrow> hdu list \<Rightarrow> row list \<Rightarrow>
    cutout h5file \<Rightarrow> py_error + cutout h5file" where
  "cut_rows self lib sg ob noise [] h5 = Inr h5"
| "cut_rows self lib sg ob noise (r # cat) h5 =
     (case cut_row self lib sg ob noise r h5 of
        Inl e \<Rightarrow> Inl e
      | Inr h5' \<Rightarrow> cut_rows self lib sg ob noise cat h5')"

text \<open>
  \<open>cut_image\<close>: the archive is opened with mode \<open>w\<close>, so the loop starts from the empty
  archive.
\<close>

definition cut_image :: "cutter \<Rightarrow> cut_lib \<Rightarrow> row list \<Rightarrow> hdu list \<Rightarrow> hdu list \<Rightarrow> hdu list \<Rightarrow>
    py_error + cutout h5file" where
  "cut_image self lib cat sg ob noise = cut_rows self lib sg ob noise cat []"

section \<open>The worker's reading of an object id\<close>

text \<open>
  Lines 74 to 76 of \<open>cpu_worker\<close>: \<open>ext, numb = name.split('_')\<close> raises \<open>ValueError\<close>
  unless the split has exactly two parts; then \<open>int(ext)\<close> and \<open>int(numb)\<close>.
\<close>

definition parse_name :: "string \<Rightarrow> py_error + int \<times> int" where
  "parse_name name =
     (case split (CHR ''_'') name of
        [ext, numb] \<Rightarrow>
          (case py_int ext of
             None \<Rightarrow> Inl ValueError
           | Some e \<Rightarrow> (case py_int numb of None \<Rightarrow> Inl ValueError | Some n \<Rightarrow> Inr (e, n)))
      | _ \<Rightarrow> Inl ValueError)"

text \<open>
  The reading of the claim's words "a two-digit integer, an underscore and a four-digit
  integer": seven characters, digits around an underscore in third place.
\<close>

definition two_four_form :: "string \<Rightarrow> bool" where
  "two_four_form s =
     (length s = 7 \<and> list_all is_digit (take 2 s) \<and> s ! 2 = CHR ''_'' \<and>
      list_all is_digit (drop 3 s))"

subsection \<open>A small catalog for the examples\<close>

definition ex_pixel :: "real ndarray" where
  "ex_pixel = \<lparr>shape = [1, 1], elems = [0]\<rparr>"

definition ex_lib :: cut_lib where
  "ex_lib = \<lparr>Cutout2D = (\<lambda>a pos n. ex_pixel), clean_mask = (\<lambda>m. m), recenter = (\<lambda>c. c)\<rparr>"

definition ex_cutter :: cutter where
  "ex_cutter = \<lparr>margin = 80, max_stellarity = 1, image_size = 1, centroids = False,
     extra_filters = []\<rparr>"

definition ex_hdu :: hdu where
  "ex_hdu = \<lparr>NAXIS1 = 1000, NAXIS2 = 1000, hdu_data = ex_pixel\<rparr>"

definition ex_row :: "int \<Rightarrow> row" where
  "ex_row n = \<lparr>X_IMAGE = 500, Y_IMAGE = 500, CLASS_STAR = 0, NUMBER = n, EXT_NUMBER = None,
     column = (\<lambda>c. 0)\<rparr>"

definition ex_cutout :: cutout where
  "ex_cutout = \<lparr>obj = ex_pixel, seg = \<lparr>shape = [1, 1], elems = [False]\<rparr>, rms = ex_pixel\<rparr>"

section \<open>The model cube and its convolution (\<open>ModelCPU\<close>)\<close>

text \<open>
  A cell of a score cube is a number or NaN; \<open>np.isnan\<close> tells them apart.
\<close>

datatype score = NaN | Score real

definition isnan :: "score \<Rightarrow> bool" where
  "isnan x = (x = NaN)"

text \<open>The values of a parameter row: indices are integers, physical values floats.\<close>

datatype pvalue = PInt int | PFloat real

type_synonym parameters = "string \<rightharpoonup> pvalue"

text \<open>
  The attributes of a \<open>ModelCPU\<close>. \<open>to_shared_mem\<close> copies an array into a shared buffer
  of the same shape: on values it is the identity, so the attributes hold the arrays
  themselves. \<open>convolved_models\<close> is absent until \<open>convolve\<close> has run.
\<close>

record model_cpu =
  models :: "real ndarray"
  log_r :: "real ndarray"
  ax_ratio :: "real ndarray"
  angle :: "real ndarray"
  convolved_models :: "real ndarray option"
  save_mosaics :: bool

text \<open>
  Modelled from the spec: the class \<open>ModelsCube\<close> (\<open>DRE.core.models\<close>) is not among the
  sources. Its three methods that the engine calls are parameters: the fitting kernel
  \<open>dre_fit\<close> ("given a cutout triple, return a score cube over the model grid"),
  \<open>get_parameters\<close> (the best-fit indices and physical values of a score cube) and
  \<open>make_mosaic\<close>. Each reads the model's attributes.
\<close>

record models_cube =
  dre_fit :: "model_cpu \<Rightarrow> real ndarray \<Rightarrow> bool ndarray \<Rightarrow> real ndarray \<Rightarrow> score ndarray"
  get_parameters :: "model_cpu \<Rightarrow> score ndarray \<Rightarrow> parameters"
  make_mosaic :: "model_cpu \<Rightarrow> real ndarray \<Rightarrow> bool ndarray \<Rightarrow> pvalue \<times> pvalue \<times> pvalue \<Rightarrow> real ndarray"

text \<open>
  The files the engine reads and writes, by path: cutout archives, PSF images, output
  score archives, mosaic images (the image may be empty), the saved summary tables (by catalog directory and input
  name), and the listing of each directory.
\<close>

record files =
  cuts :: "string \<rightharpoonup> cutout h5file"
  psfs :: "string \<rightharpoonup> real ndarray"
  chis :: "string \<rightharpoonup> score ndarray h5file"
  mosaics :: "string \<rightharpoonup> real ndarray option"
  catalogs :: "string \<times> string \<rightharpoonup> parameters list"
  listing :: "string \<rightharpoonup> string list"

text \<open>
  Modelled from the spec: \<open>get_psf\<close> (\<open>DRE.misc.read_psf\<close>) is not among the sources. It
  loads the PSF image of a path; a missing file raises \<open>FileNotFoundError\<close>, which is what
  \<open>fit_file\<close> catches.
\<close>

definition get_psf :: "files \<Rightarrow> string \<Rightarrow> py_error + real ndarray" where
  "get_psf fs psf_file = (case psfs fs psf_file of None \<Rightarrow> Inl FileNotFoundError | Some p \<Rightarrow> Inr p)"

text \<open>\<open>a.reshape(shp)\<close>: the same elements under a new shape of the same size.\<close>

definition reshape :: "'a ndarray \<Rightarrow> nat list \<Rightarrow> py_error + 'a ndarray" where
  "reshape a shp =
     (if prod_list shp = length (elems a) then Inr \<lparr>shape = shp, elems = elems a\<rparr>
      else Inl ValueError)"

text \<open>
  Line 45: \<open>(np.prod(shape[:-2]), *shape[-2:])\<close>. The slices follow Python: \<open>s[:-2]\<close> drops
  the last two entries and \<open>s[-2:]\<close> keeps them (all of a shorter \<open>s\<close>).
\<close>

definition flatten_shape :: "nat list \<Rightarrow> nat list" where
  "flatten_shape s = prod_list (take (length s - 2) s) # drop (length s - 2) s"

text \<open>Iterating over an array yields its slices along the first axis, in order.\<close>

definition slice_at :: "nat list \<Rightarrow> 'a list \<Rightarrow> nat \<Rightarrow> 'a ndarray" where
  "slice_at rest xs i =
     \<lparr>shape = rest, elems = take (prod_list rest) (drop (i * prod_list rest) xs)\<rparr>"

definition slices :: "'a ndarray \<Rightarrow> py_error + 'a ndarray list" where
  "slices a =
     (case shape a of
        [] \<Rightarrow> Inl ValueError
      | n # rest \<Rightarrow> Inr (map (slice_at rest (elems a)) [0..<n]))"

text \<open>\<open>np.array(list_of_arrays)\<close>: the arrays stacked along a new first axis.\<close>

definition np_array :: "'a ndarray list \<Rightarrow> 'a ndarray" where
  "np_array arrs =
     \<lparr>shape = length arrs # (case arrs of [] \<Rightarrow> [] | a # r \<Rightarrow> shape a),
      elems = concat (map elems arrs)\<rparr>"

text \<open>
  \<open>scipy.signal.fftconvolve(in1, in2, mode='same', axes=(-2, -1))\<close> on a 2-D slice and a
  2-D kernel: the linear convolution, cut to the size of \<open>in1\<close> around the centre. Over the
  reals the FFT computes exactly this sum; arrays of other dimensions are refused.
\<close>

definition at2 :: "real ndarray \<Rightarrow> int \<Rightarrow> int \<Rightarrow> real" where
  "at2 a i j =
     (case shape a of
        [h, w] \<Rightarrow>
          if 0 \<le> i \<and> i < int h \<and> 0 \<le> j \<and> j < int w then elems a ! (nat i * w + nat j) else 0
      | _ \<Rightarrow> 0)"

definition conv_at :: "real ndarray \<Rightarrow> real ndarray \<Rightarrow> nat \<Rightarrow> nat \<Rightarrow> nat \<Rightarrow> nat \<Rightarrow> real" where
  "conv_at in1 in2 kh kw i j =
     (\<Sum>a \<leftarrow> [0..<kh]. \<Sum>b \<leftarrow> [0..<kw].
        at2 in2 (int a) (int b) *
        at2 in1 (int i + int ((kh - 1) div 2) - int a) (int j + int ((kw - 1) div 2) - int b))"

definition fftconvolve_same :: "real ndarray \<Rightarrow> real ndarray \<Rightarrow> py_error + real ndarray" where
  "fftconvolve_same in1 in2 =
     (case (shape in1, shape in2) of
        ([h, w], [kh, kw]) \<Rightarrow>
          Inr \<lparr>shape = [h, w],
               elems = map (\<lambda>k. conv_at in1 in2 kh kw (k div w) (k mod w)) [0..<h * w]\<rparr>
      | _ \<Rightarrow> Inl ValueError)"

text \<open>\<open>pool.map(f, xs)\<close>: the results in the order of \<open>xs\<close>; the first exception is raised.\<close>

fun pool_map :: "('a \<Rightarrow> py_error + 'b) \<Rightarrow> 'a list \<Rightarrow> py_error + 'b list" where
  "pool_map f [] = Inr []"
| "pool_map f (x # xs) =
     (case f x of
        Inl e \<Rightarrow> Inl e
      | Inr y \<Rightarrow> (case pool_map f xs of Inl e \<Rightarrow> Inl e | Inr ys \<Rightarrow> Inr (y # ys)))"

text \<open>
  \<open>ModelCPU.convolve\<close>. \<open>mp.Pool(n_proc)\<close> refuses fewer than one process. With no
  leading axis \<open>np.prod(())\<close> is the float 1.0, which \<open>reshape\<close> refuses. The method
  returns only when \<open>pool.map\<close> has returned every slice; then it stores the cube.
\<close>

definition convolve :: "model_cpu \<Rightarrow> files \<Rightarrow> string \<Rightarrow> nat \<Rightarrow> py_error + model_cpu" where
  "convolve self fs psf_file np =
     (case get_psf fs psf_file of
        Inl e \<Rightarrow> Inl e
      | Inr psf \<Rightarrow>
          (if np < 1 then Inl ValueError
           else
             (case (if length (shape (models self)) \<le> 2 then Inl TypeError
                    else reshape (models self) (flatten_shape (shape (models self)))) of
                Inl e \<Rightarrow> Inl e
              | Inr flat \<Rightarrow>
             (case slices flat of
                Inl e \<Rightarrow> Inl e
              | Inr sl \<Rightarrow>
             (case pool_map (\<lambda>in1. fftconvolve_same in1 psf) sl of
                Inl e \<Rightarrow> Inl e
              | Inr convolved \<Rightarrow>
             (case reshape (np_array convolved) (shape (models self)) of
                Inl e \<Rightarrow> Inl e
              | Inr c \<Rightarrow> Inr (self\<lparr>convolved_models := Some c\<rparr>)))))))"

text \<open>
  Slice \<open>i\<close> of the cube that \<open>convolve\<close> stores: the same-size convolution of slice \<open>i\<close>
  of the flattened model cube with the PSF (used to state what \<open>convolve\<close> returns).
\<close>

definition convolved_slice :: "real ndarray \<Rightarrow> real ndarray \<Rightarrow> nat \<Rightarrow> nat \<Rightarrow> nat \<Rightarrow> real list" where
  "convolved_slice m psf h w i =
     map (\<lambda>k. conv_at (slice_at [h, w] (elems m) i) psf (hd (shape psf)) (hd (tl (shape psf)))
            (k div w) (k mod w)) [0..<h * w]"

section \<open>The fitting job (\<open>Parallelize\<close>)\<close>

subsection \<open>Work items and results\<close>

text \<open>
  An entry of the input queue: a work item \<open>(name, data, segment, noise)\<close> or the
  sentinel \<open>'STOP'\<close>. An entry of the output queue: the tuple
  \<open>(name, success, chi_cube, parameters, mosaic)\<close>.
\<close>

type_synonym work = "string \<times> real ndarray \<times> bool ndarray \<times> real ndarray"

datatype qitem = Work work | STOP

record fit_result =
  object_name :: string
  success :: bool
  chi_cube :: "score ndarray"
  params :: "parameters option"
  mosaic :: "real ndarray option"

text \<open>
  The body of the worker's loop up to the tuple it puts on the output queue (lines 68
  to 80 of \<open>cpu_worker\<close>). An exception here is not caught by the worker: it ends the
  process.
\<close>

definition fit_item :: "models_cube \<Rightarrow> model_cpu \<Rightarrow> work \<Rightarrow> py_error + fit_result" where
  "fit_item K m x =
     (case x of (name, data, segment, noise) \<Rightarrow>
       (let cube = dre_fit K m data segment noise;
            ok = (\<not> list_all isnan (elems cube))
        in if ok then
             (case parse_name name of
                Inl e \<Rightarrow> Inl e
              | Inr (ext, numb) \<Rightarrow>
                  (let ps = (get_parameters K m cube)
                              (''EXT_NUMBER'' \<mapsto> PInt ext, ''NUMBER'' \<mapsto> PInt numb)
                   in if save_mosaics m then
                        (case (ps ''E_IDX'', ps ''T_IDX'', ps ''R_IDX'') of
                           (Some e, Some t, Some r) \<Rightarrow>
                             Inr \<lparr>object_name = name, success = ok, chi_cube = cube,
                                  params = Some ps,
                                  mosaic = Some (make_mosaic K m data segment (e, t, r))\<rparr>
                         | _ \<Rightarrow> Inl KeyError)
                      else Inr \<lparr>object_name = name, success = ok, chi_cube = cube,
                                params = Some ps, mosaic = None\<rparr>))
           else Inr \<lparr>object_name = name, success = ok, chi_cube = cube, params = None,
                     mosaic = None\<rparr>))"

subsection \<open>Paths\<close>

text \<open>\<open>os.path.join\<close> of two parts, \<open>os.path.basename\<close>, and \<open>str.replace\<close>.\<close>

definition path_join :: "string \<Rightarrow> string \<Rightarrow> string" where
  "path_join a b =
     (if b \<noteq> [] \<and> hd b = CHR ''/'' then b
      else if a = [] \<or> last a = CHR ''/'' then a @ b
      else a @ ''/'' @ b)"

definition basename :: "string \<Rightarrow> string" where
  "basename p = rev (takeWhile (\<lambda>c. c \<noteq> CHR ''/'') (rev p))"

fun str_replace :: "string \<Rightarrow> string \<Rightarrow> string \<Rightarrow> string" where
  "str_replace old new [] = []"
| "str_replace old new (c # cs) =
     (if old \<noteq> [] \<and> take (length old) (c # cs) = old
      then new @ str_replace old new (drop (length old - 1) cs)
      else c # str_replace old new cs)"

definition mosaic_path :: "string \<Rightarrow> string \<Rightarrow> string" where
  "mosaic_path input_name name =
     path_join (path_join ''Mosaics'' input_name) (input_name @ ''_'' @ name @ ''_mosaic.fits'')"

subsection \<open>What the collector does with one result\<close>

text \<open>\<open>create_dataset\<close> refuses a name the archive already has.\<close>

definition create_dataset :: "'a h5file \<Rightarrow> string \<Rightarrow> 'a \<Rightarrow> py_error + 'a h5file" where
  "create_dataset h5 k v = (if k \<in> fst ` set h5 then Inl ValueError else Inr (h5 @ [(k, v)]))"

text \<open>
  Lines 106 to 115 of \<open>get_output\<close>, on the summary table and the files. The result is
  the exception raised, if any, with the table and files as they are at that point.

  Modelled from the spec: the class \<open>Summary\<close> (\<open>DRE.core.results\<close>) is not among the
  sources; the table is the list of the rows appended, and a row is a parameter mapping.
  \<open>File(output_file, 'a')\<close> creates the archive when it does not exist.
\<close>

definition collect_result :: "model_cpu \<Rightarrow> string \<Rightarrow> string \<Rightarrow> fit_result \<Rightarrow>
    parameters list \<times> files \<Rightarrow> py_error option \<times> parameters list \<times> files" where
  "collect_result m input_name output_file res st =
     (case st of (tbl, f) \<Rightarrow>
       if success res then
         (case params res of
            None \<Rightarrow> (Some TypeError, tbl, f)
          | Some ps \<Rightarrow>
              (let tbl' = tbl @ [ps];
                   h5 = (case chis f output_file of None \<Rightarrow> [] | Some a \<Rightarrow> a)
               in case create_dataset h5 (object_name res) (chi_cube res) of
                    Inl e \<Rightarrow> (Some e, tbl', f\<lparr>chis := (chis f)(output_file \<mapsto> h5)\<rparr>)
                  | Inr h5' \<Rightarrow>
                      (let f' = f\<lparr>chis := (chis f)(output_file \<mapsto> h5')\<rparr>
                       in if save_mosaics m then
                            (None, tbl',
                             f'\<lparr>mosaics := (mosaics f')
                                  (mosaic_path input_name (object_name res) \<mapsto> mosaic res)\<rparr>)
                          else (None, tbl', f'))))
       else (None, tbl, f))"

subsection \<open>The state of a job\<close>

text \<open>
  One job runs the feeder thread (\<open>feed_workers\<close>), the worker processes (\<open>cpu_worker\<close>),
  the collector thread (\<open>get_output\<close>) and the main thread (\<open>stop_processes\<close>) side by
  side. Each is a small program with its own program counter; a step of one of them is
  one atomic action on the shared state, and a schedule (a list of events) says who
  moves next. A blocking call without timeout that cannot proceed leaves the state as it
  is; a call with a timeout that cannot proceed takes its timeout branch.
\<close>

datatype feed_pc =
    F_while             \<comment> \<open>about to test the loop condition (line 87)\<close>
  | F_put               \<comment> \<open>about to open the archive and put the item (lines 88 to 96)\<close>
  | F_if                \<comment> \<open>about to test the flag after the loop (line 97)\<close>
  | F_stop nat          \<comment> \<open>in the sentinel loop with this index (lines 98 and 99)\<close>
  | F_done
  | F_raised py_error

datatype work_pc =
    W_get               \<comment> \<open>in \<open>input_queue.get()\<close> (line 67)\<close>
  | W_fit work          \<comment> \<open>holding an item, before the result is put (lines 68 to 80)\<close>
  | W_ack               \<comment> \<open>before \<open>task_done()\<close> (line 81)\<close>
  | W_done              \<comment> \<open>returned after the sentinel\<close>
  | W_raised py_error
  | W_interrupted       \<comment> \<open>returned after \<open>KeyboardInterrupt\<close> (lines 82 and 83)\<close>

datatype out_pc =
    C_while             \<comment> \<open>about to test the loop condition (line 103)\<close>
  | C_get               \<comment> \<open>in \<open>output_queue.get(timeout=2)\<close> (lines 105 to 120)\<close>
  | C_done
  | C_raised py_error

datatype main_pc =
    M_join_feed         \<comment> \<open>\<open>stop_processes\<close>, joining the feeder (lines 135 and 136)\<close>
  | M_join_proc nat     \<comment> \<open>joining the process with this index (lines 137 to 139)\<close>
  | M_join_out          \<comment> \<open>joining the collector (line 140)\<close>
  | M_save              \<comment> \<open>about to save the summary (line 168)\<close>
  | M_done              \<comment> \<open>\<open>fit_file\<close> returned after the job\<close>
  | M_aborted           \<comment> \<open>\<open>fit_file\<close> returned through \<open>abort\<close> (lines 172 to 174)\<close>

text \<open>
  A worker process. The counters \<open>got\<close>, \<open>pushed\<close> and \<open>acked\<close> are auxiliary: they count
  the work items the process took from the input queue, the results it put on the output
  queue and its calls of \<open>task_done\<close>. No step reads them.
\<close>

record worker =
  w_pc :: work_pc
  got :: nat
  pushed :: nat
  acked :: nat

text \<open>
  The \<open>Parallelize\<close> object (\<open>n_proc\<close>, the two queues, the flag \<open>terminate\<close>), the threads
  and processes of the current job and what they share: the model, the summary table and
  the files. \<open>max_size = 0\<close> stands for an unbounded queue, as in \<open>multiprocessing\<close>.
  \<open>put_log\<close> is auxiliary: everything put on the input queue during the job, in order.
\<close>

record job =
  n_proc :: nat
  max_size :: nat
  input_queue :: "qitem list"
  output_queue :: "fit_result list"
  terminate :: bool
  f_pc :: feed_pc
  submitted :: nat
  processes :: "worker list"
  c_pc :: out_pc
  completed :: nat
  m_pc :: main_pc
  model :: model_cpu
  table :: "parameters list"
  disk :: files
  put_log :: "qitem list"

text \<open>The arguments the threads of one job are started with.\<close>

record job_args =
  names :: "string list"
  input_name :: string
  input_file :: string
  output_file :: string
  cats_dir :: string

definition full :: "job \<Rightarrow> bool" where
  "full j = (0 < max_size j \<and> max_size j \<le> length (input_queue j))"

definition enqueue :: "qitem \<Rightarrow> job \<Rightarrow> job" where
  "enqueue x j = j\<lparr>input_queue := input_queue j @ [x], put_log := put_log j @ [x]\<rparr>"

subsection \<open>\<open>feed_workers\<close>\<close>

text \<open>
  The put of a work item has a timeout: on a full queue it raises \<open>QueueFull\<close>, which the
  loop passes over, leaving \<open>submitted\<close> as it is. The put of a sentinel has none: on a
  full queue it waits.
\<close>

definition feed_step :: "job_args \<Rightarrow> job \<Rightarrow> job" where
  "feed_step A j =
     (case f_pc j of
        F_while \<Rightarrow>
          if submitted j < length (names A) \<and> \<not> terminate j then j\<lparr>f_pc := F_put\<rparr>
          else j\<lparr>f_pc := F_if\<rparr>
      | F_put \<Rightarrow>
          (case cuts (disk j) (input_file A) of
             None \<Rightarrow> j\<lparr>f_pc := F_raised OSError\<rparr>
           | Some h5 \<Rightarrow>
               if length (names A) \<le> submitted j then j\<lparr>f_pc := F_raised IndexError\<rparr>
               else
                 (case map_of h5 (names A ! submitted j) of
                    None \<Rightarrow> j\<lparr>f_pc := F_raised KeyError\<rparr>
                  | Some c \<Rightarrow>
                      if full j then j\<lparr>f_pc := F_while\<rparr>
                      else (enqueue (Work (names A ! submitted j, obj c, seg c, rms c)) j)
                             \<lparr>submitted := submitted j + 1, f_pc := F_while\<rparr>))
      | F_if \<Rightarrow> if \<not> terminate j then j\<lparr>f_pc := F_stop 0\<rparr> else j\<lparr>f_pc := F_done\<rparr>
      | F_stop i \<Rightarrow>
          if i < n_proc j then
            (if full j then j else (enqueue STOP j)\<lparr>f_pc := F_stop (i + 1)\<rparr>)
          else j\<lparr>f_pc := F_done\<rparr>
      | F_done \<Rightarrow> j
      | F_raised e \<Rightarrow> j)"

subsection \<open>\<open>cpu_worker\<close>\<close>

text \<open>
  \<open>iter(input_queue.get, 'STOP')\<close>: the get has no timeout and the loop never reads the
  flag, so on an empty queue the process waits. A \<open>KeyboardInterrupt\<close> in a live worker sets
  the flag and ends the process, wherever it stands.
\<close>

definition set_worker :: "nat \<Rightarrow> worker \<Rightarrow> job \<Rightarrow> job" where
  "set_worker i w j = j\<lparr>processes := (processes j)[i := w]\<rparr>"

definition worker_step :: "models_cube \<Rightarrow> nat \<Rightarrow> job \<Rightarrow> job" where
  "worker_step K i j =
     (if i < length (processes j) then
        (let w = processes j ! i in
         case w_pc w of
           W_get \<Rightarrow>
             (case input_queue j of
                [] \<Rightarrow> j
              | STOP # q \<Rightarrow> set_worker i (w\<lparr>w_pc := W_done\<rparr>) (j\<lparr>input_queue := q\<rparr>)
              | Work x # q \<Rightarrow>
                  set_worker i (w\<lparr>w_pc := W_fit x, got := got w + 1\<rparr>) (j\<lparr>input_queue := q\<rparr>))
         | W_fit x \<Rightarrow>
             (case fit_item K (model j) x of
                Inl e \<Rightarrow> set_worker i (w\<lparr>w_pc := W_raised e\<rparr>) j
              | Inr res \<Rightarrow>
                  set_worker i (w\<lparr>w_pc := W_ack, pushed := pushed w + 1\<rparr>)
                    (j\<lparr>output_queue := output_queue j @ [res]\<rparr>))
         | W_ack \<Rightarrow> set_worker i (w\<lparr>w_pc := W_get, acked := acked w + 1\<rparr>) j
         | W_done \<Rightarrow> j
         | W_raised e \<Rightarrow> j
         | W_interrupted \<Rightarrow> j)
      else j)"

definition alive :: "worker \<Rightarrow> bool" where
  "alive w = (case w_pc w of W_get \<Rightarrow> True | W_fit x \<Rightarrow> True | W_ack \<Rightarrow> True | _ \<Rightarrow> False)"

definition worker_interrupt :: "nat \<Rightarrow> job \<Rightarrow> job" where
  "worker_interrupt i j =
     (if i < length (processes j) \<and> alive (processes j ! i)
      then set_worker i ((processes j ! i)\<lparr>w_pc := W_interrupted\<rparr>) (j\<lparr>terminate := True\<rparr>)
      else j)"

subsection \<open>\<open>get_output\<close>\<close>

text \<open>
  The get has a timeout: on an empty queue it raises \<open>QueueEmpty\<close>, which the loop passes
  over. \<open>n_tasks\<close> is \<open>len(names)\<close>.
\<close>

definition collector_step :: "job_args \<Rightarrow> job \<Rightarrow> job" where
  "collector_step A j =
     (case c_pc j of
        C_while \<Rightarrow>
          if completed j < length (names A) \<and> \<not> terminate j then j\<lparr>c_pc := C_get\<rparr>
          else j\<lparr>c_pc := C_done\<rparr>
      | C_get \<Rightarrow>
          (case output_queue j of
             [] \<Rightarrow> j\<lparr>c_pc := C_while\<rparr>
           | res # q \<Rightarrow>
               (case collect_result (model j) (input_name A) (output_file A) res (table j, disk j) of
                  (Some e, tbl, f) \<Rightarrow>
                    j\<lparr>output_queue := q, table := tbl, disk := f, c_pc := C_raised e\<rparr>
                | (None, tbl, f) \<Rightarrow>
                    j\<lparr>output_queue := q, table := tbl, disk := f, completed := completed j + 1,
                      c_pc := C_while\<rparr>))
      | C_done \<Rightarrow> j
      | C_raised e \<Rightarrow> j)"

subsection \<open>The main thread: \<open>stop_processes\<close>, the summary, \<open>abort\<close>\<close>

definition feeder_alive :: "job \<Rightarrow> bool" where
  "feeder_alive j = (case f_pc j of F_done \<Rightarrow> False | F_raised e \<Rightarrow> False | _ \<Rightarrow> True)"

definition collector_alive :: "job \<Rightarrow> bool" where
  "collector_alive j = (case c_pc j of C_done \<Rightarrow> False | C_raised e \<Rightarrow> False | _ \<Rightarrow> True)"

text \<open>
  A join waits while its thread or process is alive.

  Modelled from the spec: \<open>Summary.save\<close> is not among the sources; it persists the table
  of the input file under the catalog directory.
\<close>

definition main_step :: "job_args \<Rightarrow> job \<Rightarrow> job" where
  "main_step A j =
     (case m_pc j of
        M_join_feed \<Rightarrow> if feeder_alive j then j else j\<lparr>m_pc := M_join_proc 0\<rparr>
      | M_join_proc i \<Rightarrow>
          if i < length (processes j) then
            (if alive (processes j ! i) then j else j\<lparr>m_pc := M_join_proc (i + 1)\<rparr>)
          else j\<lparr>m_pc := M_join_out\<rparr>
      | M_join_out \<Rightarrow> if collector_alive j then j else j\<lparr>m_pc := M_save\<rparr>
      | M_save \<Rightarrow>
          j\<lparr>disk := (disk j)\<lparr>catalogs := (catalogs (disk j))((cats_dir A, input_name A) \<mapsto> table j)\<rparr>,
            m_pc := M_done\<rparr>
      | M_done \<Rightarrow> j
      | M_aborted \<Rightarrow> j)"

text \<open>
  A \<open>KeyboardInterrupt\<close> in the main thread while it is inside the \<open>try\<close> of \<open>fit_file\<close>:
  \<open>abort\<close> sets the flag and \<open>fit_file\<close> returns at once, joining nothing.
\<close>

definition main_interrupt :: "job \<Rightarrow> job" where
  "main_interrupt j =
     (if m_pc j = M_done \<or> m_pc j = M_aborted then j
      else j\<lparr>terminate := True, m_pc := M_aborted\<rparr>)"

subsection \<open>Schedules\<close>

datatype actor = Feeder | Proc nat | Collector | MainThread

datatype event = Run actor | SigintProc nat | SigintMain

definition act :: "models_cube \<Rightarrow> job_args \<Rightarrow> actor \<Rightarrow> job \<Rightarrow> job" where
  "act K A a j =
     (case a of
        Feeder \<Rightarrow> feed_step A j
      | Proc i \<Rightarrow> worker_step K i j
      | Collector \<Rightarrow> collector_step A j
      | MainThread \<Rightarrow> main_step A j)"

definition step :: "models_cube \<Rightarrow> job_args \<Rightarrow> event \<Rightarrow> job \<Rightarrow> job" where
  "step K A ev j =
     (case ev of
        Run a \<Rightarrow> act K A a j
      | SigintProc i \<Rightarrow> worker_interrupt i j
      | SigintMain \<Rightarrow> main_interrupt j)"

fun exec :: "models_cube \<Rightarrow> job_args \<Rightarrow> event list \<Rightarrow> job \<Rightarrow> job" where
  "exec K A [] j = j"
| "exec K A (ev # evs) j = exec K A evs (step K A ev j)"

text \<open>
  \<open>start_processes\<close>: the feeder and the collector start at their loops, and \<open>n_proc\<close>
  fresh processes at their first get; the main thread goes on to \<open>stop_processes\<close>.
\<close>

definition new_worker :: worker where
  "new_worker = \<lparr>w_pc = W_get, got = 0, pushed = 0, acked = 0\<rparr>"

definition start_processes :: "job \<Rightarrow> job" where
  "start_processes j =
     j\<lparr>f_pc := F_while, submitted := 0, processes := replicate (n_proc j) new_worker,
       c_pc := C_while, completed := 0, m_pc := M_join_feed, put_log := []\<rparr>"

subsection \<open>A small model and job for the examples\<close>

text \<open>
  A kernel whose score cube has one cell: the first pixel of the cutout, or NaN when that
  pixel is negative. The model cube has shape \<open>(1, 1, 1, 1, 1)\<close>.
\<close>

definition ex_kernel :: models_cube where
  "ex_kernel =
     \<lparr>dre_fit = (\<lambda>m data segment noise.
          \<lparr>shape = [1, 1, 1, 1],
           elems = [if hd (elems data) < 0 then NaN else Score (hd (elems data))]\<rparr>),
      get_parameters = (\<lambda>m cube. [''E_IDX'' \<mapsto> PInt 0, ''T_IDX'' \<mapsto> PInt 0, ''R_IDX'' \<mapsto> PInt 0]),
      make_mosaic = (\<lambda>m data segment idx. data)\<rparr>"

definition ex_model :: model_cpu where
  "ex_model =
     \<lparr>models = \<lparr>shape = [1, 1, 1, 1, 1], elems = [1]\<rparr>,
      log_r = \<lparr>shape = [1], elems = [0]\<rparr>,
      ax_ratio = \<lparr>shape = [1], elems = [1]\<rparr>,
      angle = \<lparr>shape = [1], elems = [0]\<rparr>,
      convolved_models = None,
      save_mosaics = False\<rparr>"

definition ex_mask :: "bool ndarray" where
  "ex_mask = \<lparr>shape = [1, 1], elems = [True]\<rparr>"

definition ex_good :: "real ndarray" where
  "ex_good = \<lparr>shape = [1, 1], elems = [2]\<rparr>"

definition ex_bad :: "real ndarray" where
  "ex_bad = \<lparr>shape = [1, 1], elems = [- 1]\<rparr>"



definition ex_result_bad :: fit_result where
  "ex_result_bad =
     \<lparr>object_name = ''00_0008'', success = False,
      chi_cube = \<lparr>shape = [1, 1, 1, 1], elems = [NaN]\<rparr>,
      params = None, mosaic = None\<rparr>"

definition ex_files :: files where
  "ex_files =
     \<lparr>cuts = [''Cuts/a_cuts.h5'' \<mapsto>
               [(''00_0007'', \<lparr>obj = ex_good, seg = ex_mask, rms = ex_good\<rparr>),
                (''00_0008'', \<lparr>obj = ex_bad, seg = ex_mask, rms = ex_good\<rparr>)]],
      psfs = [''PSF/a.psf'' \<mapsto> \<lparr>shape = [1, 1], elems = [1]\<rparr>],
      chis = Map.empty,
      mosaics = Map.empty,
      catalogs = Map.empty,
      listing = [''Cuts'' \<mapsto> [''a_cuts.h5'']]\<rparr>"

definition ex_args :: job_args where
  "ex_args =
     \<lparr>names = [''00_0007'', ''00_0008''], input_name = ''a'', input_file = ''Cuts/a_cuts.h5'',
      output_file = ''Chi/a_chi.h5'', cats_dir = ''Sextracted''\<rparr>"

text \<open>A \<open>Parallelize(n_proc, max_size)\<close> as \<open>__init__\<close> leaves it, with the model and the files.\<close>

definition parallelize :: "nat \<Rightarrow> nat \<Rightarrow> model_cpu \<Rightarrow> files \<Rightarrow> job" where
  "parallelize np ms m f =
     \<lparr>n_proc = np, max_size = ms, input_queue = [], output_queue = [], terminate = False,
      f_pc = F_done, submitted = 0, processes = [], c_pc = C_done, completed = 0,
      m_pc = M_done, model = m, table = [], disk = f, put_log = []\<rparr>"

subsection \<open>Invariants of a job\<close>

text \<open>The name a queue entry carries; the sentinel has none.\<close>

definition qname :: "qitem \<Rightarrow> string option" where
  "qname x = (case x of Work w \<Rightarrow> Some (fst w) | STOP \<Rightarrow> None)"

definition is_work :: "qitem \<Rightarrow> bool" where
  "is_work x = (case x of Work w \<Rightarrow> True | STOP \<Rightarrow> False)"

definition is_stop :: "qitem \<Rightarrow> bool" where
  "is_stop x = (x = STOP)"

text \<open>
  The feeder's invariant: the log of the input queue is the first \<open>submitted\<close> names of
  the archive, in order, followed by as many sentinels as the sentinel loop has put; past
  the loop either everything is submitted or the flag is set.
\<close>

definition logged :: "job_args \<Rightarrow> job \<Rightarrow> nat \<Rightarrow> bool" where
  "logged A j k =
     (map qname (put_log j) = map Some (take (submitted j) (names A)) @ replicate k None)"

definition feed_inv :: "job_args \<Rightarrow> job \<Rightarrow> bool" where
  "feed_inv A j =
     (submitted j \<le> length (names A) \<and>
      (case f_pc j of
         F_while \<Rightarrow> logged A j 0
       | F_put \<Rightarrow> logged A j 0
       | F_if \<Rightarrow> logged A j 0 \<and> (submitted j = length (names A) \<or> terminate j)
       | F_stop i \<Rightarrow> logged A j i \<and> i \<le> n_proc j \<and> submitted j = length (names A)
       | F_done \<Rightarrow>
           (logged A j 0 \<and> terminate j) \<or>
           (logged A j (n_proc j) \<and> submitted j = length (names A))
       | F_raised e \<Rightarrow> logged A j 0))"

text \<open>
  Once the flag is set while the feeder has not passed the test after its loop, the
  feeder never reaches the sentinel loop.
\<close>

definition no_sentinel :: "job_args \<Rightarrow> job \<Rightarrow> bool" where
  "no_sentinel A j =
     (terminate j \<and> logged A j 0 \<and> submitted j \<le> length (names A) \<and>
      (case f_pc j of F_stop i \<Rightarrow> False | _ \<Rightarrow> True))"

subsection \<open>A complete run of the example job\<close>

text \<open>
  One worker and an input queue of size one. The feeder's second put times out on the
  full queue and is tried again; its put of the sentinel waits for room; the second
  object's cube is all NaN.
\<close>

definition ex_job :: job where
  "ex_job = start_processes (parallelize 1 1 ex_model ex_files)"

definition ex_schedule :: "event list" where
  "ex_schedule = map Run
     [Feeder, Feeder, Feeder, Feeder, Proc 0, Feeder, Feeder, Feeder, Feeder, Feeder,
      Proc 0, Proc 0, Proc 0, Feeder, Feeder, Collector, Collector, Collector, Collector,
      Proc 0, Proc 0, Proc 0, Collector, Collector, Collector,
      MainThread, MainThread, MainThread, MainThread, MainThread]"

text \<open>
  A worker's counters, by where it stands: at rest every item it took has given one
  result and one acknowledgement; while it holds an item the result is still to come;
  before \<open>task_done\<close> the acknowledgement is. A process ended by an exception holds an item
  it never answered.
\<close>

definition worker_inv :: "worker \<Rightarrow> bool" where
  "worker_inv w =
     (case w_pc w of
        W_get \<Rightarrow> pushed w = got w \<and> acked w = got w
      | W_fit x \<Rightarrow> got w = pushed w + 1 \<and> acked w = pushed w
      | W_ack \<Rightarrow> pushed w = got w \<and> got w = acked w + 1
      | W_done \<Rightarrow> pushed w = got w \<and> acked w = got w
      | W_raised e \<Rightarrow> got w = pushed w + 1 \<and> acked w = pushed w
      | W_interrupted \<Rightarrow> acked w \<le> pushed w \<and> pushed w \<le> got w)"

definition returned :: "worker \<Rightarrow> bool" where
  "returned w = (w_pc w = W_done)"

definition past_loop :: "job \<Rightarrow> bool" where
  "past_loop j = (case f_pc j of F_stop i \<Rightarrow> True | F_done \<Rightarrow> True | _ \<Rightarrow> False)"

text \<open>
  The input queue: every submitted item is in the queue or was taken by a worker; the
  queue holds work items first and sentinels after them; a sentinel is in the queue, or
  a worker has returned, only when the feeder is past its loop; and once a worker has
  returned only sentinels are left.
\<close>

definition queue_inv :: "job \<Rightarrow> bool" where
  "queue_inv j =
     (list_all worker_inv (processes j) \<and>
      submitted j = length (filter is_work (input_queue j)) + sum_list (map got (processes j)) \<and>
      list_all is_stop (dropWhile is_work (input_queue j)) \<and>
      (list_ex is_stop (input_queue j) \<or> list_ex returned (processes j) \<longrightarrow> past_loop j) \<and>
      (list_ex returned (processes j) \<longrightarrow> list_all is_stop (input_queue j)))"

subsection \<open>A cancelled run of the example job\<close>

text \<open>
  Two workers. The feeder puts the first object, the first worker takes it and is then
  interrupted (a \<open>SIGINT\<close> that reaches this process only): it sets the flag and returns.
\<close>

definition ex_job2 :: job where
  "ex_job2 = start_processes (parallelize 2 100 ex_model ex_files)"

definition ex_cancel :: "event list" where
  "ex_cancel = [Run Feeder, Run Feeder, Run (Proc 0), SigintProc 0]"

text \<open>
  What holds of the job from then on: the flag is set, the input queue is empty, the
  feeder cannot reach its sentinel loop, the second worker is in its get, and the main
  thread has not come past the join of that worker.
\<close>

definition stuck :: "job \<Rightarrow> bool" where
  "stuck j =
     (terminate j \<and> input_queue j = [] \<and> length (processes j) = 2 \<and>
      w_pc (processes j ! 1) = W_get \<and>
      (case f_pc j of F_while \<Rightarrow> True | F_if \<Rightarrow> True | F_done \<Rightarrow> True | _ \<Rightarrow> False) \<and>
      (case m_pc j of M_join_feed \<Rightarrow> True | M_join_proc i \<Rightarrow> i \<le> 1 | _ \<Rightarrow> False))"

section \<open>The drivers: \<open>fit_file\<close> and \<open>fit_dir\<close>\<close>

text \<open>
  A call either raises, or returns with the state it leaves, or is still waiting in
  \<open>stop_processes\<close> when the schedule is used up.
\<close>

datatype outcome = Raised py_error | Returned job | Waiting job

text \<open>
  \<open>fit_file\<close>. The names are the keys of the input archive (opening a missing archive
  raises). \<open>convolve\<close> runs to its end before \<open>start_processes\<close>; its \<open>FileNotFoundError\<close>
  is caught and the function returns at once. The job then runs under the schedule.
\<close>

definition fit_file :: "models_cube \<Rightarrow> job \<Rightarrow> string \<Rightarrow> string \<Rightarrow> string \<Rightarrow> string \<Rightarrow> string \<Rightarrow>
    event list \<Rightarrow> outcome" where
  "fit_file K j name infile outfile psf cats sched =
     (case cuts (disk j) infile of
        None \<Rightarrow> Raised OSError
      | Some h5 \<Rightarrow>
          (case convolve (model j) (disk j) psf (n_proc j) of
             Inl e \<Rightarrow> if e = FileNotFoundError then Returned j else Raised e
           | Inr m \<Rightarrow>
               (let A = \<lparr>names = map fst h5, input_name = name, input_file = infile,
                          output_file = outfile, cats_dir = cats\<rparr>;
                    j' = exec K A sched (start_processes (j\<lparr>model := m, table := []\<rparr>))
                in if m_pc j' = M_done \<or> m_pc j' = M_aborted then Returned j' else Waiting j')))"

text \<open>Lines 183 to 186: the paths \<open>fit_dir\<close> derives from a file name.\<close>

definition tile_name :: "string \<Rightarrow> string" where
  "tile_name filename = str_replace ''_cuts.h5'' [] (basename filename)"

definition chi_path :: "string \<Rightarrow> string \<Rightarrow> string" where
  "chi_path output_dir filename = path_join output_dir (tile_name filename @ ''_chi.h5'')"

definition psf_path :: "string \<Rightarrow> string \<Rightarrow> string" where
  "psf_path psf_dir filename = path_join psf_dir (tile_name filename @ ''.psf'')"

text \<open>Lines 187 and 188: an output archive that exists is removed.\<close>

definition remove_output :: "string \<Rightarrow> job \<Rightarrow> job" where
  "remove_output outfile j =
     (if chis (disk j) outfile \<noteq> None
      then j\<lparr>disk := (disk j)\<lparr>chis := (chis (disk j))(outfile := None)\<rparr>\<rparr>
      else j)"

text \<open>
  The loop of \<open>fit_dir\<close> over the sorted file names; \<open>sched\<close> gives the schedule of each
  file's job. The loop breaks when the flag is set.
\<close>

fun fit_files :: "models_cube \<Rightarrow> (string \<Rightarrow> event list) \<Rightarrow> string \<Rightarrow> string \<Rightarrow> string \<Rightarrow> string \<Rightarrow>
    string list \<Rightarrow> job \<Rightarrow> outcome" where
  "fit_files K sched input_dir output_dir psf_dir cats [] j = Returned j"
| "fit_files K sched input_dir output_dir psf_dir cats (filename # rest) j =
     (case fit_file K (remove_output (chi_path output_dir filename) j) (tile_name filename)
             (path_join input_dir filename) (chi_path output_dir filename)
             (psf_path psf_dir filename) cats (sched filename) of
        Raised e \<Rightarrow> Raised e
      | Waiting j' \<Rightarrow> Waiting j'
      | Returned j' \<Rightarrow>
          if terminate j' then Returned j'
          else fit_files K sched input_dir output_dir psf_dir cats rest j')"

definition fit_dir :: "models_cube \<Rightarrow> (string \<Rightarrow> event list) \<Rightarrow> job \<Rightarrow> string \<Rightarrow> string \<Rightarrow> string \<Rightarrow>
    string \<Rightarrow> outcome" where
  "fit_dir K sched j input_dir output_dir psf_dir cats =
     (case listing (disk j) input_dir of
        None \<Rightarrow> Raised FileNotFoundError
      | Some fnames \<Rightarrow> fit_files K sched input_dir output_dir psf_dir cats (sort fnames) j)"

section \<open>Properties\<close>

subsection \<open>Object ids: formatting and parsing\<close>

lemma digit_char_props:
  assumes "d < 10"
  shows "is_digit (digit_char d)" "digit_val (digit_char d) = d"
proof -
  have v: "(of_char (digit_char d) :: nat) = 48 + d"
    using assms by (simp add: digit_char_def)
  show "is_digit (digit_char d)" using assms by (simp add: is_digit_def v)
  show "digit_val (digit_char d) = d" by (simp add: digit_val_def v)
qed

lemma is_digit_not_special:
  assumes "is_digit c"
  shows "\<not> is_space c" "c \<noteq> CHR ''_''" "c \<noteq> CHR ''-''" "c \<noteq> CHR ''+''"
  using assms by (auto simp: is_digit_def is_space_def)

lemma is_digit_zero: "is_digit (CHR ''0'')" "digit_val (CHR ''0'') = 0"
  by (simp_all add: is_digit_def digit_val_def)

lemma char_of_digits:
  "char_of (48::nat) = CHR ''0''" "char_of (49::nat) = CHR ''1''" "char_of (50::nat) = CHR ''2''"
  "char_of (51::nat) = CHR ''3''" "char_of (52::nat) = CHR ''4''" "char_of (53::nat) = CHR ''5''"
  "char_of (54::nat) = CHR ''6''" "char_of (55::nat) = CHR ''7''" "char_of (56::nat) = CHR ''8''"
  "char_of (57::nat) = CHR ''9''"
  by (simp_all add: char_of_def bit_iff_odd)

lemma after_digit_all_digits:
  "list_all is_digit s \<Longrightarrow> after_digit acc s = Some (dec_val acc s)"
  by (induction s arbitrary: acc) (auto simp: dec_val_def)

lemma digits_of_all: "list_all is_digit (digits_of n)"
  by (induction n rule: digits_of.induct) (subst digits_of.simps, auto simp: digit_char_props)

lemma digits_of_ne: "digits_of n \<noteq> []"
  by (subst digits_of.simps) auto

lemma dec_val_digits_of: "dec_val 0 (digits_of n) = n"
  by (induction n rule: digits_of.induct)
    (subst digits_of.simps, auto simp: digit_char_props dec_val_def)

lemma zfill_all: "list_all is_digit s \<Longrightarrow> list_all is_digit (zfill w s)"
  by (auto simp: zfill_def list_all_iff is_digit_zero)

lemma zfill_ne: "s \<noteq> [] \<Longrightarrow> zfill w s \<noteq> []"
  by (simp add: zfill_def)

lemma dec_val_zeros: "dec_val 0 (replicate k (CHR ''0'') @ s) = dec_val 0 s"
  by (induction k) (simp_all add: dec_val_def is_digit_zero)

lemma py_digits_all:
  assumes "list_all is_digit s" "s \<noteq> []"
  shows "py_digits s = Some (dec_val 0 s)"
proof (cases s)
  case Nil
  with assms show ?thesis by simp
next
  case (Cons c cs)
  with assms have "is_digit c" "list_all is_digit cs" by simp_all
  then show ?thesis
    by (simp add: Cons py_digits_def after_digit_all_digits dec_val_def)
qed

lemma py_digits_zfill: "py_digits (zfill w (digits_of n)) = Some n"
  using py_digits_all [OF zfill_all [OF digits_of_all] zfill_ne [OF digits_of_ne], of w n]
  by (simp add: zfill_def dec_val_zeros dec_val_digits_of)

lemma strip_id: "list_all (\<lambda>c. \<not> is_space c) s \<Longrightarrow> strip s = s"
proof (cases s rule: rev_cases)
  case Nil
  then show ?thesis by (simp add: strip_def)
next
  case (snoc ys y)
  assume a: "list_all (\<lambda>c. \<not> is_space c) s"
  have 1: "dropWhile is_space s = s" using a by (cases s) auto
  have 2: "dropWhile is_space (rev s) = rev s" using a snoc by simp
  show ?thesis by (simp add: strip_def 1 2)
qed

lemma minus_not_space: "\<not> is_space (CHR ''-'')"
  by (simp add: is_space_def)

lemma format_0d_chars:
  "list_all (\<lambda>c. is_digit c \<or> c = CHR ''-'') (format_0d w i)"
  using zfill_all [OF digits_of_all]
  by (auto simp: format_0d_def list_all_iff)

lemma format_0d_no_space: "list_all (\<lambda>c. \<not> is_space c) (format_0d w i)"
  using format_0d_chars [of w i] is_digit_not_special(1) minus_not_space
  by (auto simp: list_all_iff)

lemma format_0d_no_underscore: "CHR ''_'' \<notin> set (format_0d w i)"
  using format_0d_chars [of w i] is_digit_not_special(2)
  by (auto simp: list_all_iff)

text \<open>\<open>int\<close> reads back what the format wrote, whatever the width and the sign.\<close>

lemma py_int_format_0d: "py_int (format_0d w i) = Some i"
proof (cases "i < 0")
  case True
  then show ?thesis
    using strip_id [OF format_0d_no_space, of w i]
    by (simp add: py_int_def format_0d_def py_digits_zfill)
next
  case False
  obtain c cs where z: "zfill w (digits_of (nat i)) = c # cs"
    using zfill_ne [OF digits_of_ne] by (cases "zfill w (digits_of (nat i))") auto
  have "is_digit c" using zfill_all [OF digits_of_all, of w "nat i"] z by simp
  then have "c \<noteq> CHR ''-''" "c \<noteq> CHR ''+''" using is_digit_not_special by blast+
  moreover have "py_digits (c # cs) = Some (nat i)" using py_digits_zfill [of w "nat i"] z by simp
  ultimately show ?thesis
    using False strip_id [OF format_0d_no_space, of w i]
    by (simp add: py_int_def format_0d_def z)
qed

lemma split_acc_none: "sep \<notin> set s \<Longrightarrow> split_acc sep acc s = [rev acc @ s]"
  by (induction s arbitrary: acc) auto

lemma split_acc_one:
  "sep \<notin> set a \<Longrightarrow> sep \<notin> set b \<Longrightarrow> split_acc sep acc (a @ sep # b) = [rev acc @ a, b]"
  by (induction a arbitrary: acc) (auto simp: split_acc_none)

lemma split_object_id:
  "split (CHR ''_'') (object_id e n) = [format_0d 2 e, format_0d 4 n]"
  using split_acc_one [OF format_0d_no_underscore format_0d_no_underscore, where acc = "[]"]
  by (simp add: split_def object_id_def)

lemma parse_name_object_id: "parse_name (object_id e n) = Inr (e, n)"
  by (simp add: parse_name_def split_object_id py_int_format_0d)

lemma length_format_0d: "w \<le> length (format_0d w i)"
  by (auto simp: format_0d_def zfill_def)

lemma digits_of_small: "n < 10 ^ k \<Longrightarrow> 0 < k \<Longrightarrow> length (digits_of n) \<le> k"
proof (induction n arbitrary: k rule: digits_of.induct)
  case (1 n)
  show ?case
  proof (cases "n < 10")
    case True
    then show ?thesis using 1(3) by (subst digits_of.simps) simp
  next
    case False
    then obtain j where k: "k = Suc j" using 1(3) by (cases k) auto
    have "0 < j" using False 1(2) k by (cases j) auto
    moreover have "n div 10 < 10 ^ j" using 1(2) k by (simp add: less_mult_imp_div_less)
    ultimately have "length (digits_of (n div 10)) \<le> j" using 1(1) [OF False] by blast
    then show ?thesis using False k by (subst digits_of.simps) simp
  qed
qed

lemma length_format_0d_small:
  "0 \<le> i \<Longrightarrow> i < 10 ^ w \<Longrightarrow> 0 < w \<Longrightarrow> length (format_0d w i) = w"
  using digits_of_small [of "nat i" w]
  by (auto simp: format_0d_def zfill_def nat_less_iff)

lemma format_0d_nonneg_digits: "0 \<le> i \<Longrightarrow> list_all is_digit (format_0d w i)"
  using zfill_all [OF digits_of_all] by (simp add: format_0d_def)

lemma two_four_object_id:
  assumes "0 \<le> e" "e < 100" "0 \<le> n" "n < 10000"
  shows "two_four_form (object_id e n)"
proof -
  have le: "length (format_0d 2 e) = 2" using length_format_0d_small [of e 2] assms by simp
  have ln: "length (format_0d 4 n) = 4" using length_format_0d_small [of n 4] assms by simp
  show ?thesis
    using le ln format_0d_nonneg_digits [OF assms(1), of 2]
      format_0d_nonneg_digits [OF assms(3), of 4]
    by (simp add: two_four_form_def object_id_def nth_append)
qed

subsection \<open>The keys \<open>cut_image\<close> writes\<close>

lemma create_group_keys:
  "create_group h5 k v = Inr h5' \<Longrightarrow> map fst h5' = map fst h5 @ [k]"
  by (auto simp: create_group_def split: if_splits)

lemma cut_row_keys:
  assumes "cut_row self lib sg ob noise r h5 = Inr h5'"
  shows "map fst h5' = map fst h5 \<or>
         map fst h5' = map fst h5 @ [object_id (ext_number_of r) (NUMBER r)]"
proof (cases "cut_row self lib sg ob noise r h5 = Inr h5")
  case True
  with assms show ?thesis by simp
next
  case False
  then obtain c where "create_group h5 (object_id (ext_number_of r) (NUMBER r)) c = Inr h5'"
    using assms unfolding cut_row_def Let_def
    by (simp split: sum.splits if_splits)
  then have "map fst h5' = map fst h5 @ [object_id (ext_number_of r) (NUMBER r)]"
    by (rule create_group_keys)
  then show ?thesis by blast
qed

lemma cut_rows_keys:
  "cut_rows self lib sg ob noise cat h5 = Inr h5' \<Longrightarrow> k \<in> set (map fst h5') \<Longrightarrow>
   k \<in> set (map fst h5) \<or> (\<exists>r \<in> set cat. k = object_id (ext_number_of r) (NUMBER r))"
proof (induction cat arbitrary: h5)
  case Nil
  then show ?case by simp
next
  case (Cons r cat)
  from Cons.prems(1) obtain h1 where h1: "cut_row self lib sg ob noise r h5 = Inr h1"
    and rest: "cut_rows self lib sg ob noise cat h1 = Inr h5'"
    by (auto split: sum.splits)
  from Cons.IH [OF rest Cons.prems(2)] consider
    (old) "k \<in> set (map fst h1)" |
    (new) "\<exists>r \<in> set cat. k = object_id (ext_number_of r) (NUMBER r)"
    by blast
  then show ?case
  proof cases
    case old
    from cut_row_keys [OF h1] have
      "set (map fst h1) \<subseteq> set (map fst h5) \<union> {object_id (ext_number_of r) (NUMBER r)}"
      by (metis Un_upper1 list.set(1) list.set(2) set_append subset_refl)
    with old show ?thesis by auto
  next
    case new
    then show ?thesis by auto
  qed
qed

text \<open>
  C9 (as amended). Every key of an archive written by \<open>cut_image\<close> is the object id of
  a catalog row: the extension number zero-padded to at least two characters, an
  underscore, and the catalog number zero-padded to at least four characters. The
  worker's parse of such a key never fails and gives back the two integers. When the
  extension number is below 100 and the catalog number below 10000 (neither negative),
  the key is exactly two digits, an underscore and four digits.
\<close>

theorem cut_image_keys_parse:
  assumes "cut_image self lib cat sg ob noise = Inr h5" and "k \<in> set (map fst h5)"
  shows "\<exists>r \<in> set cat.
           k = format_0d 2 (ext_number_of r) @ ''_'' @ format_0d 4 (NUMBER r) \<and>
           2 \<le> length (format_0d 2 (ext_number_of r)) \<and>
           4 \<le> length (format_0d 4 (NUMBER r)) \<and>
           parse_name k = Inr (ext_number_of r, NUMBER r) \<and>
           (0 \<le> ext_number_of r \<and> ext_number_of r < 100 \<and> 0 \<le> NUMBER r \<and> NUMBER r < 10000
              \<longrightarrow> two_four_form k)"
proof -
  from cut_rows_keys [OF assms(1) [unfolded cut_image_def] assms(2)]
  obtain r where r: "r \<in> set cat" "k = object_id (ext_number_of r) (NUMBER r)"
    by auto
  show ?thesis
  proof (rule bexI [OF _ r(1)], intro conjI impI)
    show "k = format_0d 2 (ext_number_of r) @ ''_'' @ format_0d 4 (NUMBER r)"
      using r(2) by (simp add: object_id_def)
    show "2 \<le> length (format_0d 2 (ext_number_of r))" by (rule length_format_0d)
    show "4 \<le> length (format_0d 4 (NUMBER r))" by (rule length_format_0d)
    show "parse_name k = Inr (ext_number_of r, NUMBER r)"
      using r(2) by (simp add: parse_name_object_id)
    show "two_four_form k"
      if "0 \<le> ext_number_of r \<and> ext_number_of r < 100 \<and> 0 \<le> NUMBER r \<and> NUMBER r < 10000"
      using that r(2) by (simp add: two_four_object_id)
  qed
qed

lemma ex_cut_image:
  "n \<noteq> 0 \<Longrightarrow> cut_image ex_cutter ex_lib [ex_row n] [ex_hdu] [ex_hdu] [ex_hdu] =
     Inr [(object_id 0 n, ex_cutout)]"
  by (simp add: cut_image_def cut_row_def ext_number_of_def py_index_def condition_def
      cut_object_def create_group_def isclose_def ex_cutter_def ex_lib_def ex_row_def ex_hdu_def
      ex_pixel_def ex_cutout_def)

lemma replicate_small:
  "replicate 1 c = [c]" "replicate 2 c = [c, c]" "replicate 3 c = [c, c, c]"
  by (simp_all add: numeral_2_eq_2 numeral_3_eq_3)

lemma object_id_0_7: "object_id 0 7 = ''00_0007''"
  by (simp add: object_id_def format_0d_def zfill_def digits_of.simps digit_char_def
      char_of_digits replicate_small)

lemma object_id_0_12345: "object_id 0 12345 = ''00_12345''"
  by (simp add: object_id_def format_0d_def zfill_def digits_of.simps digit_char_def
      char_of_digits replicate_small)

theorem cut_image_keys_parse_witness:
  "cut_image ex_cutter ex_lib [ex_row 7] [ex_hdu] [ex_hdu] [ex_hdu] = Inr [(''00_0007'', ex_cutout)] \<and>
   ''00_0007'' \<in> set (map fst [(''00_0007'', ex_cutout)]) \<and>
   parse_name ''00_0007'' = Inr (0, 7) \<and> two_four_form ''00_0007''"
proof -
  have run: "cut_image ex_cutter ex_lib [ex_row 7] [ex_hdu] [ex_hdu] [ex_hdu] =
      Inr [(''00_0007'', ex_cutout)]"
    by (simp add: ex_cut_image object_id_0_7)
  have mem: "''00_0007'' \<in> set (map fst [(''00_0007'', ex_cutout)])" by simp
  from cut_image_keys_parse [OF run mem] obtain r where r: "r \<in> set [ex_row 7]"
    and p: "parse_name ''00_0007'' = Inr (ext_number_of r, NUMBER r)"
    and t: "0 \<le> ext_number_of r \<and> ext_number_of r < 100 \<and> 0 \<le> NUMBER r \<and> NUMBER r < 10000
              \<longrightarrow> two_four_form ''00_0007''"
    by blast
  from r have v: "ext_number_of r = 0" "NUMBER r = 7"
    by (simp_all add: ext_number_of_def ex_row_def)
  from p t have "parse_name ''00_0007'' = Inr (0, 7) \<and> two_four_form ''00_0007''"
    by (simp add: v)
  with run mem show ?thesis by blast
qed

text \<open>
  C9 as stated fails: the catalog number 12345 is written with five digits, so the key
  is not "two digits, underscore, four digits".
\<close>

theorem cut_image_key_five_digits:
  "cut_image ex_cutter ex_lib [ex_row 12345] [ex_hdu] [ex_hdu] [ex_hdu] =
     Inr [(''00_12345'', ex_cutout)] \<and> \<not> two_four_form ''00_12345''"
  by (simp add: ex_cut_image object_id_0_12345 two_four_form_def)

subsection \<open>The convolution of the model cube\<close>

lemma pool_map_all:
  "(\<And>x. x \<in> set xs \<Longrightarrow> f (q x) = Inr (g x)) \<Longrightarrow> pool_map f (map q xs) = Inr (map g xs)"
  by (induction xs) simp_all

lemma flatten_shape_5: "flatten_shape [e, t, r, h, w] = [e * t * r, h, w]"
  by (simp add: flatten_shape_def eval_nat_numeral)

lemma length_concat_const:
  "(\<And>x. x \<in> set xs \<Longrightarrow> length (f x) = c) \<Longrightarrow> length (concat (map f xs)) = length xs * c"
  by (induction xs) simp_all

lemma fftconvolve_same_slice:
  assumes "shape psf = [kh, kw]"
  shows "fftconvolve_same (slice_at [h, w] (elems m) i) psf =
           Inr \<lparr>shape = [h, w], elems = convolved_slice m psf h w i\<rparr>"
  using assms by (simp add: fftconvolve_same_def slice_at_def convolved_slice_def)

lemma convolve_5d:
  assumes s: "shape (models self) = [e, t, r, h, w]" and ws: "well_shaped (models self)"
    and p: "psfs fs psf_file = Some psf" and k: "shape psf = [kh, kw]" and n: "0 < np"
  shows "convolve self fs psf_file np =
           Inr (self\<lparr>convolved_models :=
             Some \<lparr>shape = [e, t, r, h, w],
                   elems = concat (map (convolved_slice (models self) psf h w) [0..<e * t * r])\<rparr>\<rparr>)"
proof -
  let ?m = "models self"
  let ?g = "\<lambda>i. \<lparr>shape = [h, w], elems = convolved_slice ?m psf h w i\<rparr>"
  have len: "length (elems ?m) = e * t * r * h * w"
    using ws s by (simp add: well_shaped_def mult.assoc)
  have flat: "reshape ?m (flatten_shape [e, t, r, h, w]) = Inr \<lparr>shape = [e * t * r, h, w], elems = elems ?m\<rparr>"
    by (simp add: reshape_def flatten_shape_5 len mult.assoc)
  have sl: "slices \<lparr>shape = [e * t * r, h, w], elems = elems ?m\<rparr> =
      Inr (map (slice_at [h, w] (elems ?m)) [0..<e * t * r])"
    by (simp add: slices_def)
  have pm': "pool_map (\<lambda>in1. fftconvolve_same in1 psf)
        (map (slice_at [h, w] (elems ?m)) [0..<e * t * r]) = Inr (map ?g [0..<e * t * r])"
    by (rule pool_map_all) (simp add: fftconvolve_same_slice [OF k])
  have cl: "length (concat (map (convolved_slice ?m psf h w) [0..<e * t * r])) = e * t * r * (h * w)"
    using length_concat_const [of "[0..<e * t * r]" "convolved_slice ?m psf h w" "h * w"]
    by (simp add: convolved_slice_def)
  have el: "elems (np_array (map ?g [0..<e * t * r])) =
      concat (map (convolved_slice ?m psf h w) [0..<e * t * r])"
    by (simp add: np_array_def comp_def)
  have restored: "reshape (np_array (map ?g [0..<e * t * r])) [e, t, r, h, w] =
      Inr \<lparr>shape = [e, t, r, h, w],
           elems = concat (map (convolved_slice ?m psf h w) [0..<e * t * r])\<rparr>"
    unfolding reshape_def el cl by (simp add: mult.assoc)
  show ?thesis
    using n by (simp add: convolve_def get_psf_def p flat sl pm' restored s)
qed

subsection \<open>What a worker puts on the output queue\<close>



lemma ex_fit_bad:
  "fit_item ex_kernel ex_model (''00_0008'', ex_bad, ex_mask, ex_good) = Inr ex_result_bad"
  by (simp add: fit_item_def ex_kernel_def ex_model_def ex_bad_def ex_result_bad_def isnan_def)




subsection \<open>What the collector does with a failed result\<close>

text \<open>
  C3. For a work item whose score cube is entirely NaN the worker's result has the
  success flag unset, and when the collector takes such a result from the output queue
  the only changes to the whole state of the job are that the result leaves the queue,
  the counter \<open>completed\<close> advances by one and the collector is back at its loop test.
  So the summary table and every file (output archives, mosaics) are as they were, no
  exception is raised, and the flag, the feeder, the workers, the main thread and the
  input queue are untouched: the run goes on.
\<close>

theorem failed_result_dropped:
  assumes "list_all isnan (elems (dre_fit K m data segment noise))"
  shows "\<exists>res. fit_item K m (name, data, segment, noise) = Inr res \<and> \<not> success res \<and>
           (\<forall>A j q. c_pc j = C_get \<and> output_queue j = res # q \<longrightarrow>
              collector_step A j =
                j\<lparr>output_queue := q, completed := completed j + 1, c_pc := C_while\<rparr> \<and>
              table (collector_step A j) = table j \<and>
              disk (collector_step A j) = disk j \<and>
              terminate (collector_step A j) = terminate j)"
proof -
  let ?res = "\<lparr>object_name = name, success = False,
      chi_cube = dre_fit K m data segment noise, params = None, mosaic = None\<rparr>"
  have "fit_item K m (name, data, segment, noise) = Inr ?res"
    using assms by (simp add: fit_item_def)
  moreover have "\<not> success ?res" by simp
  moreover have "collector_step A j =
        j\<lparr>output_queue := q, completed := completed j + 1, c_pc := C_while\<rparr> \<and>
      table (collector_step A j) = table j \<and>
      disk (collector_step A j) = disk j \<and>
      terminate (collector_step A j) = terminate j"
    if "c_pc j = C_get \<and> output_queue j = ?res # q" for A j q
    using that by (simp add: collector_step_def collect_result_def)
  ultimately show ?thesis by blast
qed

theorem failed_result_dropped_witness:
  "list_all isnan (elems (dre_fit ex_kernel ex_model ex_bad ex_mask ex_good)) \<and>
   fit_item ex_kernel ex_model (''00_0008'', ex_bad, ex_mask, ex_good) = Inr ex_result_bad \<and>
   collector_step ex_args
     ((parallelize 1 100 ex_model ex_files)\<lparr>c_pc := C_get, output_queue := [ex_result_bad]\<rparr>) =
     (parallelize 1 100 ex_model ex_files)\<lparr>c_pc := C_while, completed := 1\<rparr> \<and>
   table (collector_step ex_args
     ((parallelize 1 100 ex_model ex_files)\<lparr>c_pc := C_get, output_queue := [ex_result_bad]\<rparr>)) = [] \<and>
   disk (collector_step ex_args
     ((parallelize 1 100 ex_model ex_files)\<lparr>c_pc := C_get, output_queue := [ex_result_bad]\<rparr>)) = ex_files"
proof -
  let ?j = "(parallelize 1 100 ex_model ex_files)\<lparr>c_pc := C_get, output_queue := [ex_result_bad]\<rparr>"
  have n: "list_all isnan (elems (dre_fit ex_kernel ex_model ex_bad ex_mask ex_good))"
    by (simp add: ex_kernel_def ex_bad_def isnan_def)
  from failed_result_dropped [OF n, of "''00_0008''"] obtain res where
    r: "fit_item ex_kernel ex_model (''00_0008'', ex_bad, ex_mask, ex_good) = Inr res"
    and c: "\<forall>A j q. c_pc j = C_get \<and> output_queue j = res # q \<longrightarrow>
              collector_step A j =
                j\<lparr>output_queue := q, completed := completed j + 1, c_pc := C_while\<rparr> \<and>
              table (collector_step A j) = table j \<and>
              disk (collector_step A j) = disk j \<and>
              terminate (collector_step A j) = terminate j"
    by blast
  from r have res: "res = ex_result_bad" by (simp add: ex_fit_bad)
  have "c_pc ?j = C_get \<and> output_queue ?j = res # []" by (simp add: res)
  with c have "collector_step ex_args ?j =
        ?j\<lparr>output_queue := [], completed := completed ?j + 1, c_pc := C_while\<rparr> \<and>
      table (collector_step ex_args ?j) = table ?j \<and>
      disk (collector_step ex_args ?j) = disk ?j"
    by blast
  then have "collector_step ex_args ?j =
        (parallelize 1 100 ex_model ex_files)\<lparr>c_pc := C_while, completed := 1\<rparr> \<and>
      table (collector_step ex_args ?j) = [] \<and> disk (collector_step ex_args ?j) = ex_files"
    by (simp add: parallelize_def)
  with n ex_fit_bad show ?thesis by blast
qed

subsection \<open>Frame properties of the steps\<close>

lemma worker_step_frame [simp]:
  "f_pc (worker_step K i j) = f_pc j"
  "submitted (worker_step K i j) = submitted j"
  "put_log (worker_step K i j) = put_log j"
  "n_proc (worker_step K i j) = n_proc j"
  "max_size (worker_step K i j) = max_size j"
  "terminate (worker_step K i j) = terminate j"
  "c_pc (worker_step K i j) = c_pc j"
  "completed (worker_step K i j) = completed j"
  "m_pc (worker_step K i j) = m_pc j"
  "model (worker_step K i j) = model j"
  "table (worker_step K i j) = table j"
  "disk (worker_step K i j) = disk j"
  "length (processes (worker_step K i j)) = length (processes j)"
  by (simp_all add: worker_step_def set_worker_def Let_def
      split: work_pc.splits list.splits qitem.splits sum.splits)

lemma worker_interrupt_frame [simp]:
  "f_pc (worker_interrupt i j) = f_pc j"
  "submitted (worker_interrupt i j) = submitted j"
  "put_log (worker_interrupt i j) = put_log j"
  "n_proc (worker_interrupt i j) = n_proc j"
  "max_size (worker_interrupt i j) = max_size j"
  "input_queue (worker_interrupt i j) = input_queue j"
  "output_queue (worker_interrupt i j) = output_queue j"
  "c_pc (worker_interrupt i j) = c_pc j"
  "completed (worker_interrupt i j) = completed j"
  "m_pc (worker_interrupt i j) = m_pc j"
  "model (worker_interrupt i j) = model j"
  "table (worker_interrupt i j) = table j"
  "disk (worker_interrupt i j) = disk j"
  "length (processes (worker_interrupt i j)) = length (processes j)"
  by (simp_all add: worker_interrupt_def set_worker_def)

lemma collector_step_frame [simp]:
  "f_pc (collector_step A j) = f_pc j"
  "submitted (collector_step A j) = submitted j"
  "put_log (collector_step A j) = put_log j"
  "n_proc (collector_step A j) = n_proc j"
  "max_size (collector_step A j) = max_size j"
  "terminate (collector_step A j) = terminate j"
  "input_queue (collector_step A j) = input_queue j"
  "processes (collector_step A j) = processes j"
  "m_pc (collector_step A j) = m_pc j"
  "model (collector_step A j) = model j"
  by (simp_all add: collector_step_def split: out_pc.splits list.splits prod.splits option.splits)

lemma main_step_frame [simp]:
  "f_pc (main_step A j) = f_pc j"
  "submitted (main_step A j) = submitted j"
  "put_log (main_step A j) = put_log j"
  "n_proc (main_step A j) = n_proc j"
  "max_size (main_step A j) = max_size j"
  "terminate (main_step A j) = terminate j"
  "input_queue (main_step A j) = input_queue j"
  "output_queue (main_step A j) = output_queue j"
  "processes (main_step A j) = processes j"
  "c_pc (main_step A j) = c_pc j"
  "completed (main_step A j) = completed j"
  "model (main_step A j) = model j"
  "table (main_step A j) = table j"
  by (simp_all add: main_step_def split: main_pc.splits)

lemma main_interrupt_frame [simp]:
  "f_pc (main_interrupt j) = f_pc j"
  "submitted (main_interrupt j) = submitted j"
  "put_log (main_interrupt j) = put_log j"
  "n_proc (main_interrupt j) = n_proc j"
  "max_size (main_interrupt j) = max_size j"
  "input_queue (main_interrupt j) = input_queue j"
  "output_queue (main_interrupt j) = output_queue j"
  "processes (main_interrupt j) = processes j"
  "c_pc (main_interrupt j) = c_pc j"
  "completed (main_interrupt j) = completed j"
  "model (main_interrupt j) = model j"
  "table (main_interrupt j) = table j"
  "disk (main_interrupt j) = disk j"
  by (simp_all add: main_interrupt_def)

lemma feed_step_frame [simp]:
  "n_proc (feed_step A j) = n_proc j"
  "max_size (feed_step A j) = max_size j"
  "terminate (feed_step A j) = terminate j"
  "output_queue (feed_step A j) = output_queue j"
  "processes (feed_step A j) = processes j"
  "c_pc (feed_step A j) = c_pc j"
  "completed (feed_step A j) = completed j"
  "m_pc (feed_step A j) = m_pc j"
  "model (feed_step A j) = model j"
  "table (feed_step A j) = table j"
  "disk (feed_step A j) = disk j"
  by (simp_all add: feed_step_def enqueue_def split: feed_pc.splits option.splits)

text \<open>The flag is never cleared.\<close>

lemma terminate_step: "terminate j \<Longrightarrow> terminate (step K A ev j)"
  by (cases ev)
    (auto simp: step_def act_def worker_interrupt_def set_worker_def main_interrupt_def
      split: actor.splits)

lemma terminate_exec: "terminate j \<Longrightarrow> terminate (exec K A evs j)"
  by (induction evs arbitrary: j) (simp_all add: terminate_step)

subsection \<open>The feeder\<close>

lemma feed_inv_feed_step: "feed_inv A j \<Longrightarrow> feed_inv A (feed_step A j)"
  unfolding feed_inv_def feed_step_def
  by (cases "f_pc j")
    (auto simp: logged_def enqueue_def qname_def take_Suc_conv_app_nth replicate_append_same
      split: option.splits)

lemma feed_inv_other:
  assumes "feed_inv A j" and "f_pc j' = f_pc j" and "submitted j' = submitted j"
    and "put_log j' = put_log j" and "n_proc j' = n_proc j" and "terminate j \<longrightarrow> terminate j'"
  shows "feed_inv A j'"
  using assms unfolding feed_inv_def logged_def by (auto split: feed_pc.splits)

lemma feed_inv_step: "feed_inv A j \<Longrightarrow> feed_inv A (step K A ev j)"
proof (cases ev)
  case (Run a)
  assume i: "feed_inv A j"
  show ?thesis
  proof (cases a)
    case Feeder
    with Run i show ?thesis by (simp add: step_def act_def feed_inv_feed_step)
  next
    case (Proc n)
    with Run show ?thesis by (simp add: step_def act_def feed_inv_other [OF i])
  next
    case Collector
    with Run show ?thesis by (simp add: step_def act_def feed_inv_other [OF i])
  next
    case MainThread
    with Run show ?thesis by (simp add: step_def act_def feed_inv_other [OF i])
  qed
next
  case (SigintProc n)
  assume i: "feed_inv A j"
  have "terminate j \<longrightarrow> terminate (worker_interrupt n j)"
    by (simp add: worker_interrupt_def set_worker_def)
  with SigintProc show ?thesis by (simp add: step_def feed_inv_other [OF i])
next
  case SigintMain
  assume i: "feed_inv A j"
  have "terminate j \<longrightarrow> terminate (main_interrupt j)"
    by (simp add: main_interrupt_def)
  with SigintMain show ?thesis by (simp add: step_def feed_inv_other [OF i])
qed

lemma feed_inv_exec: "feed_inv A j \<Longrightarrow> feed_inv A (exec K A evs j)"
  by (induction evs arbitrary: j) (simp_all add: feed_inv_step)

lemma feed_inv_start: "feed_inv A (start_processes j)"
  by (simp add: feed_inv_def logged_def start_processes_def)

lemma no_sentinel_feed_step: "no_sentinel A j \<Longrightarrow> no_sentinel A (feed_step A j)"
  unfolding no_sentinel_def feed_step_def
  by (cases "f_pc j")
    (auto simp: logged_def enqueue_def qname_def take_Suc_conv_app_nth split: option.splits)

lemma no_sentinel_other:
  assumes "no_sentinel A j" and "f_pc j' = f_pc j" and "submitted j' = submitted j"
    and "put_log j' = put_log j" and "terminate j \<longrightarrow> terminate j'"
  shows "no_sentinel A j'"
  using assms unfolding no_sentinel_def logged_def by auto

lemma no_sentinel_step: "no_sentinel A j \<Longrightarrow> no_sentinel A (step K A ev j)"
proof (cases ev)
  case (Run a)
  assume i: "no_sentinel A j"
  show ?thesis
  proof (cases a)
    case Feeder
    with Run i show ?thesis by (simp add: step_def act_def no_sentinel_feed_step)
  next
    case (Proc n)
    with Run show ?thesis by (simp add: step_def act_def no_sentinel_other [OF i])
  next
    case Collector
    with Run show ?thesis by (simp add: step_def act_def no_sentinel_other [OF i])
  next
    case MainThread
    with Run show ?thesis by (simp add: step_def act_def no_sentinel_other [OF i])
  qed
next
  case (SigintProc n)
  assume i: "no_sentinel A j"
  have "terminate j \<longrightarrow> terminate (worker_interrupt n j)"
    by (simp add: worker_interrupt_def set_worker_def)
  with SigintProc show ?thesis by (simp add: step_def no_sentinel_other [OF i])
next
  case SigintMain
  assume i: "no_sentinel A j"
  have "terminate j \<longrightarrow> terminate (main_interrupt j)"
    by (simp add: main_interrupt_def)
  with SigintMain show ?thesis by (simp add: step_def no_sentinel_other [OF i])
qed

lemma no_sentinel_exec: "no_sentinel A j \<Longrightarrow> no_sentinel A (exec K A evs j)"
  by (induction evs arbitrary: j) (simp_all add: no_sentinel_step)

lemma no_sentinel_log: "no_sentinel A j \<Longrightarrow> STOP \<notin> set (put_log j)"
proof
  assume a: "no_sentinel A j" and s: "STOP \<in> set (put_log j)"
  from s have "None \<in> set (map qname (put_log j))" by (force simp: qname_def)
  with a show False by (auto simp: no_sentinel_def logged_def)
qed

lemma n_proc_step [simp]: "n_proc (step K A ev j) = n_proc j"
  by (cases ev) (auto simp: step_def act_def split: actor.splits)

lemma n_proc_exec [simp]: "n_proc (exec K A evs j) = n_proc j"
  by (induction evs arbitrary: j) simp_all

lemma feed_inv_log:
  assumes "feed_inv A j"
  shows "\<exists>k \<le> n_proc j. logged A j k \<and> (0 < k \<longrightarrow> submitted j = length (names A))"
  using assms unfolding feed_inv_def by (cases "f_pc j") auto

lemma feed_inv_cancelled:
  assumes "feed_inv A j" and "terminate j" and "submitted j < length (names A)"
  shows "no_sentinel A j"
  using assms unfolding feed_inv_def no_sentinel_def by (cases "f_pc j") auto

text \<open>
  C5. In every run of a job, whatever the schedule:
  the entries put on the input queue are, in order, the first \<open>submitted\<close> names of the
  archive, each once, followed by at most \<open>n_proc\<close> sentinels, and a sentinel is there
  only when every name has been submitted (a timed-out put changes neither the log nor
  \<open>submitted\<close>, so the same item is tried again);
  when the feeder has returned and the flag is not set, the entries are all the names of
  the archive in order followed by exactly \<open>n_proc\<close> sentinels;
  and when the flag is set at a moment where not every item is submitted, no sentinel is
  put, then or later.
\<close>

theorem feeder_never_drops:
  fixes K A par evs evs'
  defines "j \<equiv> exec K A evs (start_processes par)"
  shows "(\<exists>k \<le> n_proc par.
            map qname (put_log j) = map Some (take (submitted j) (names A)) @ replicate k None \<and>
            (0 < k \<longrightarrow> submitted j = length (names A))) \<and>
         (f_pc j = F_done \<and> \<not> terminate j \<longrightarrow>
            map qname (put_log j) = map Some (names A) @ replicate (n_proc par) None) \<and>
         (terminate j \<and> submitted j < length (names A) \<longrightarrow>
            STOP \<notin> set (put_log (exec K A evs' j)))"
proof -
  have inv: "feed_inv A j"
    unfolding j_def by (rule feed_inv_exec [OF feed_inv_start])
  have np: "n_proc j = n_proc par"
    by (simp add: j_def start_processes_def)
  from feed_inv_log [OF inv] np have 1: "\<exists>k \<le> n_proc par.
      map qname (put_log j) = map Some (take (submitted j) (names A)) @ replicate k None \<and>
      (0 < k \<longrightarrow> submitted j = length (names A))"
    by (simp add: logged_def)
  have 2: "map qname (put_log j) = map Some (names A) @ replicate (n_proc par) None"
    if "f_pc j = F_done \<and> \<not> terminate j"
    using inv that np by (simp add: feed_inv_def logged_def)
  have 3: "STOP \<notin> set (put_log (exec K A evs' j))"
    if "terminate j \<and> submitted j < length (names A)"
  proof -
    from that inv have "no_sentinel A j" by (simp add: feed_inv_cancelled)
    then have "no_sentinel A (exec K A evs' j)" by (rule no_sentinel_exec)
    then show ?thesis by (rule no_sentinel_log)
  qed
  from 1 2 3 show ?thesis by blast
qed

subsection \<open>The workers and the input queue\<close>

lemma list_all_update: "list_all P xs \<Longrightarrow> P x \<Longrightarrow> list_all P (xs[i := x])"
  by (induction xs arbitrary: i) (auto split: nat.splits)

lemma list_ex_update:
  "list_ex P (xs[i := x]) \<Longrightarrow> P x \<or> list_ex P xs"
  by (induction xs arbitrary: i) (auto split: nat.splits)

lemma list_ex_update_same:
  "i < length xs \<Longrightarrow> \<not> P (xs ! i) \<Longrightarrow> \<not> P x \<Longrightarrow> list_ex P (xs[i := x]) = list_ex P xs"
  by (induction xs arbitrary: i) (auto split: nat.splits)

lemma list_ex_update_new: "i < length xs \<Longrightarrow> P x \<Longrightarrow> list_ex P (xs[i := x])"
  by (induction xs arbitrary: i) (auto split: nat.splits)

lemma sum_got_update:
  "i < length ws \<Longrightarrow>
   sum_list (map got (ws[i := w])) + got (ws ! i) = sum_list (map got ws) + got w"
  by (induction ws arbitrary: i) (auto split: nat.splits)

lemma dropWhile_work_stop:
  "list_all is_stop (dropWhile is_work q) \<Longrightarrow> list_all is_stop (dropWhile is_work (q @ [STOP]))"
  by (induction q) (auto simp: is_stop_def is_work_def)

lemma all_work_no_stop: "\<not> list_ex is_stop q \<Longrightarrow> dropWhile is_work q = []"
  by (induction q) (auto simp: is_stop_def is_work_def split: qitem.splits)

lemma all_stop_no_work: "list_all is_stop q \<Longrightarrow> filter is_work q = []"
  by (induction q) (auto simp: is_stop_def is_work_def)

lemma queue_inv_feed_step:
  assumes "queue_inv j"
  shows "queue_inv (feed_step A j)"
proof (cases "f_pc j")
  case F_while
  with assms show ?thesis
    by (auto simp: queue_inv_def feed_step_def past_loop_def)
next
  case F_put
  with assms have quiet: "\<not> list_ex is_stop (input_queue j)" "\<not> list_ex returned (processes j)"
    by (auto simp: queue_inv_def past_loop_def split: if_splits)
  from quiet(1) have dw: "dropWhile is_work (input_queue j @ [Work x]) = []" for x
    using all_work_no_stop [of "input_queue j @ [Work x]"] by (simp add: is_stop_def)
  from assms F_put quiet show ?thesis
    by (auto simp: queue_inv_def feed_step_def enqueue_def past_loop_def dw is_work_def
        is_stop_def split: option.splits)
next
  case F_if
  with assms show ?thesis
    by (auto simp: queue_inv_def feed_step_def past_loop_def)
next
  case (F_stop i)
  with assms show ?thesis
    by (auto simp: queue_inv_def feed_step_def enqueue_def past_loop_def dropWhile_work_stop
        is_work_def is_stop_def)
next
  case F_done
  with assms show ?thesis by (simp add: feed_step_def)
next
  case (F_raised e)
  with assms show ?thesis by (simp add: feed_step_def)
qed

lemma queue_inv_output [simp]: "queue_inv (j\<lparr>output_queue := q\<rparr>) = queue_inv j"
  by (simp add: queue_inv_def past_loop_def)

lemma worker_inv_nth: "queue_inv j \<Longrightarrow> i < length (processes j) \<Longrightarrow> worker_inv (processes j ! i)"
  by (simp add: queue_inv_def list_all_length)

text \<open>A step of a worker that leaves the queue alone and neither takes an item nor returns.\<close>

lemma queue_inv_set_worker:
  assumes inv: "queue_inv j" and i: "i < length (processes j)" and w: "worker_inv w"
    and g: "got w = got (processes j ! i)"
    and r: "\<not> returned w" "\<not> returned (processes j ! i)"
  shows "queue_inv (set_worker i w j)"
proof -
  have s: "sum_list (map got ((processes j)[i := w])) = sum_list (map got (processes j))"
    using sum_got_update [OF i, of w] g by simp
  have e: "list_ex returned ((processes j)[i := w]) = list_ex returned (processes j)"
    using list_ex_update_same [OF i r(2) r(1)] .
  show ?thesis
    using inv w
    by (auto simp: queue_inv_def set_worker_def s e list_all_update past_loop_def)
qed

lemma all_stop_dropWhile: "list_all is_stop q \<Longrightarrow> list_all is_stop (dropWhile is_work q)"
  by (induction q) auto

lemma queue_inv_take_stop:
  assumes inv: "queue_inv j" and i: "i < length (processes j)"
    and pc: "w_pc (processes j ! i) = W_get" and q: "input_queue j = STOP # q"
  shows "queue_inv (set_worker i ((processes j ! i)\<lparr>w_pc := W_done\<rparr>) (j\<lparr>input_queue := q\<rparr>))"
proof -
  let ?w = "(processes j ! i)\<lparr>w_pc := W_done\<rparr>"
  have wi: "worker_inv ?w"
    using worker_inv_nth [OF inv i] pc by (simp add: worker_inv_def)
  have s: "sum_list (map got ((processes j)[i := ?w])) = sum_list (map got (processes j))"
    using sum_got_update [OF i, of ?w] by simp
  have stops: "list_all is_stop q"
    using inv q by (simp add: queue_inv_def is_work_def)
  have pl: "past_loop j"
    using inv q by (simp add: queue_inv_def is_stop_def)
  show ?thesis
    using inv wi stops pl q
    by (simp add: queue_inv_def set_worker_def s list_all_update past_loop_def
        all_stop_dropWhile is_work_def)
qed

lemma queue_inv_take_work:
  assumes inv: "queue_inv j" and i: "i < length (processes j)"
    and pc: "w_pc (processes j ! i) = W_get" and q: "input_queue j = Work x # q"
  shows "queue_inv (set_worker i ((processes j ! i)\<lparr>w_pc := W_fit x, got := Suc (got (processes j ! i))\<rparr>)
           (j\<lparr>input_queue := q\<rparr>))"
proof -
  let ?w = "(processes j ! i)\<lparr>w_pc := W_fit x, got := Suc (got (processes j ! i))\<rparr>"
  have wi: "worker_inv ?w"
    using worker_inv_nth [OF inv i] pc by (simp add: worker_inv_def)
  have s: "sum_list (map got ((processes j)[i := ?w])) = Suc (sum_list (map got (processes j)))"
    using sum_got_update [OF i, of ?w] by simp
  have nr: "\<not> list_ex returned (processes j)"
    using inv q by (auto simp: queue_inv_def is_stop_def split: if_splits)
  have e: "\<not> list_ex returned ((processes j)[i := ?w])"
    using nr list_ex_update [of returned "processes j" i ?w] by (auto simp: returned_def)
  show ?thesis
    using inv wi q e
    by (auto simp: queue_inv_def set_worker_def s list_all_update past_loop_def is_work_def
        is_stop_def split: if_splits)
qed

lemma queue_inv_worker_step:
  assumes inv: "queue_inv j"
  shows "queue_inv (worker_step K i j)"
proof (cases "i < length (processes j)")
  case False
  with inv show ?thesis by (simp add: worker_step_def)
next
  case i: True
  let ?w = "processes j ! i"
  note wi = worker_inv_nth [OF inv i]
  show ?thesis
  proof (cases "w_pc ?w")
    case W_get
    show ?thesis
    proof (cases "input_queue j")
      case Nil
      with W_get i inv show ?thesis by (simp add: worker_step_def Let_def)
    next
      case (Cons a q)
      show ?thesis
      proof (cases a)
        case (Work x)
        with queue_inv_take_work [OF inv i W_get] Cons W_get i show ?thesis
          by (simp add: worker_step_def Let_def)
      next
        case STOP
        with queue_inv_take_stop [OF inv i W_get] Cons W_get i show ?thesis
          by (simp add: worker_step_def Let_def)
      qed
    qed
  next
    case (W_fit x)
    show ?thesis
    proof (cases "fit_item K (model j) x")
      case (Inl e)
      have "queue_inv (set_worker i (?w\<lparr>w_pc := W_raised e\<rparr>) j)"
        using wi W_fit by (intro queue_inv_set_worker [OF inv i]) (simp_all add: worker_inv_def returned_def)
      with W_fit Inl i show ?thesis by (simp add: worker_step_def Let_def)
    next
      case (Inr res)
      have "queue_inv (set_worker i (?w\<lparr>w_pc := W_ack, pushed := pushed ?w + 1\<rparr>) j)"
        using wi W_fit by (intro queue_inv_set_worker [OF inv i]) (simp_all add: worker_inv_def returned_def)
      then have "queue_inv (set_worker i (?w\<lparr>w_pc := W_ack, pushed := pushed ?w + 1\<rparr>)
          (j\<lparr>output_queue := output_queue j @ [res]\<rparr>))"
        by (simp add: set_worker_def queue_inv_def past_loop_def)
      with W_fit Inr i show ?thesis by (simp add: worker_step_def Let_def)
    qed
  next
    case W_ack
    have "queue_inv (set_worker i (?w\<lparr>w_pc := W_get, acked := acked ?w + 1\<rparr>) j)"
      using wi W_ack by (intro queue_inv_set_worker [OF inv i]) (simp_all add: worker_inv_def returned_def)
    with W_ack i show ?thesis by (simp add: worker_step_def Let_def)
  next
    case W_done
    with inv i show ?thesis by (simp add: worker_step_def Let_def)
  next
    case (W_raised e)
    with inv i show ?thesis by (simp add: worker_step_def Let_def)
  next
    case W_interrupted
    with inv i show ?thesis by (simp add: worker_step_def Let_def)
  qed
qed

lemma queue_inv_worker_interrupt:
  assumes inv: "queue_inv j"
  shows "queue_inv (worker_interrupt i j)"
proof (cases "i < length (processes j) \<and> alive (processes j ! i)")
  case False
  with inv show ?thesis by (auto simp: worker_interrupt_def)
next
  case True
  then have i: "i < length (processes j)" and al: "alive (processes j ! i)" by simp_all
  let ?w = "processes j ! i"
  have "queue_inv (set_worker i (?w\<lparr>w_pc := W_interrupted\<rparr>) j)"
    using worker_inv_nth [OF inv i] al
    by (intro queue_inv_set_worker [OF inv i])
      (auto simp: worker_inv_def returned_def alive_def split: work_pc.splits)
  then have "queue_inv (set_worker i (?w\<lparr>w_pc := W_interrupted\<rparr>) (j\<lparr>terminate := True\<rparr>))"
    by (simp add: set_worker_def queue_inv_def past_loop_def)
  with i al show ?thesis by (simp add: worker_interrupt_def)
qed

lemma queue_inv_other:
  assumes "queue_inv j" and "input_queue j' = input_queue j" and "processes j' = processes j"
    and "submitted j' = submitted j" and "f_pc j' = f_pc j"
  shows "queue_inv j'"
  using assms by (simp add: queue_inv_def past_loop_def)

lemma queue_inv_step: "queue_inv j \<Longrightarrow> queue_inv (step K A ev j)"
proof (cases ev)
  case (Run a)
  assume inv: "queue_inv j"
  show ?thesis
  proof (cases a)
    case Feeder
    with Run inv show ?thesis by (simp add: step_def act_def queue_inv_feed_step)
  next
    case (Proc n)
    with Run inv show ?thesis by (simp add: step_def act_def queue_inv_worker_step)
  next
    case Collector
    with Run show ?thesis by (simp add: step_def act_def queue_inv_other [OF inv])
  next
    case MainThread
    with Run show ?thesis by (simp add: step_def act_def queue_inv_other [OF inv])
  qed
next
  case (SigintProc n)
  assume "queue_inv j"
  with SigintProc show ?thesis by (simp add: step_def queue_inv_worker_interrupt)
next
  case SigintMain
  assume inv: "queue_inv j"
  with SigintMain show ?thesis by (simp add: step_def queue_inv_other [OF inv])
qed

lemma queue_inv_exec: "queue_inv j \<Longrightarrow> queue_inv (exec K A evs j)"
  by (induction evs arbitrary: j) (simp_all add: queue_inv_step)

lemma queue_inv_start: "input_queue j = [] \<Longrightarrow> queue_inv (start_processes j)"
  by (auto simp: queue_inv_def start_processes_def new_worker_def worker_inv_def returned_def
      list_all_length list_ex_length)

lemma ex_run_feeder:
  "f_pc (exec ex_kernel ex_args ex_schedule ex_job) = F_done"
  "\<not> terminate (exec ex_kernel ex_args ex_schedule ex_job)"
  "m_pc (exec ex_kernel ex_args ex_schedule ex_job) = M_done"
  "c_pc (exec ex_kernel ex_args ex_schedule ex_job) = C_done"
  by code_simp+

lemma ex_run_workers:
  "processes (exec ex_kernel ex_args ex_schedule ex_job) =
     [\<lparr>w_pc = W_done, got = 2, pushed = 2, acked = 2\<rparr>]"
  by code_simp

lemma ex_names: "names ex_args = [''00_0007'', ''00_0008'']" "length (names ex_args) = 2"
  by (simp_all add: ex_args_def)

lemma ex_cancel_state:
  "terminate (exec ex_kernel ex_args ex_cancel ex_job2)"
  "submitted (exec ex_kernel ex_args ex_cancel ex_job2) = 1"
  by code_simp+

theorem feeder_never_drops_witness:
  "f_pc (exec ex_kernel ex_args ex_schedule ex_job) = F_done \<and>
   \<not> terminate (exec ex_kernel ex_args ex_schedule ex_job) \<and>
   map qname (put_log (exec ex_kernel ex_args ex_schedule ex_job)) =
     [Some ''00_0007'', Some ''00_0008'', None] \<and>
   terminate (exec ex_kernel ex_args ex_cancel ex_job2) \<and>
   submitted (exec ex_kernel ex_args ex_cancel ex_job2) < length (names ex_args) \<and>
   STOP \<notin> set (put_log (exec ex_kernel ex_args (map Run [Feeder, Feeder, Proc 1, Feeder])
     (exec ex_kernel ex_args ex_cancel ex_job2)))"
proof -
  have a: "f_pc (exec ex_kernel ex_args ex_schedule ex_job) = F_done \<and>
      \<not> terminate (exec ex_kernel ex_args ex_schedule ex_job)"
    by (simp add: ex_run_feeder)
  have "map qname (put_log (exec ex_kernel ex_args ex_schedule ex_job)) =
      map Some (names ex_args) @ replicate (n_proc (parallelize 1 1 ex_model ex_files)) None"
    using feeder_never_drops [where K = ex_kernel and A = ex_args and evs = ex_schedule
        and par = "parallelize 1 1 ex_model ex_files"] a
    unfolding ex_job_def by blast
  then have 1: "map qname (put_log (exec ex_kernel ex_args ex_schedule ex_job)) =
      [Some ''00_0007'', Some ''00_0008'', None]"
    by (simp add: ex_names parallelize_def)
  have b: "terminate (exec ex_kernel ex_args ex_cancel ex_job2) \<and>
      submitted (exec ex_kernel ex_args ex_cancel ex_job2) < length (names ex_args)"
    by (simp add: ex_cancel_state ex_names)
  have 2: "STOP \<notin> set (put_log (exec ex_kernel ex_args (map Run [Feeder, Feeder, Proc 1, Feeder])
      (exec ex_kernel ex_args ex_cancel ex_job2)))"
    using feeder_never_drops [where K = ex_kernel and A = ex_args and evs = ex_cancel
        and par = "parallelize 2 100 ex_model ex_files"
        and evs' = "map Run [Feeder, Feeder, Proc 1, Feeder]"] b
    unfolding ex_job2_def by blast
  from a 1 b 2 show ?thesis by blast
qed

subsection \<open>Results and acknowledgements\<close>

lemma sum_list_map_eq:
  "list_all (\<lambda>w. f w = g w) ws \<Longrightarrow> sum_list (map f ws) = sum_list (map g ws)"
  by (induction ws) simp_all

lemma worker_inv_at_rest:
  "worker_inv w \<Longrightarrow> w_pc w = W_get \<or> w_pc w = W_done \<Longrightarrow> pushed w = got w \<and> acked w = got w"
  by (auto simp: worker_inv_def)

text \<open>
  C6. A job is started on an empty input queue. Whatever the schedule, every worker
  keeps its counters in step: at rest (in its get, or returned after the sentinel) it
  has put exactly one result and made exactly one acknowledgement for each work item it
  took; while it holds an item the result and the acknowledgement of that item are the
  only ones missing. When the run has completed without cancellation (the feeder has
  returned, the flag is not set, and every one of the workers, of which there is at
  least one, has returned after its sentinel), every name of the archive has been
  submitted and the acknowledgements on the input queue, the results put and the items
  taken all number the work items submitted.
\<close>

theorem acks_equal_submitted:
  fixes K A par evs
  assumes "input_queue par = []"
  defines "j \<equiv> exec K A evs (start_processes par)"
  shows "list_all worker_inv (processes j) \<and>
         (\<forall>w \<in> set (processes j).
            w_pc w = W_get \<or> w_pc w = W_done \<longrightarrow> pushed w = got w \<and> acked w = got w) \<and>
         (f_pc j = F_done \<and> \<not> terminate j \<and> processes j \<noteq> [] \<and>
          list_all (\<lambda>w. w_pc w = W_done) (processes j) \<longrightarrow>
            submitted j = length (names A) \<and>
            sum_list (map got (processes j)) = submitted j \<and>
            sum_list (map pushed (processes j)) = submitted j \<and>
            sum_list (map acked (processes j)) = submitted j)"
proof -
  have q: "queue_inv j"
    unfolding j_def by (rule queue_inv_exec [OF queue_inv_start [OF assms(1)]])
  have f: "feed_inv A j"
    unfolding j_def by (rule feed_inv_exec [OF feed_inv_start])
  from q have wi: "list_all worker_inv (processes j)"
    by (simp add: queue_inv_def)
  then have rest: "\<forall>w \<in> set (processes j).
      w_pc w = W_get \<or> w_pc w = W_done \<longrightarrow> pushed w = got w \<and> acked w = got w"
    using worker_inv_at_rest by (auto simp: list_all_iff)
  have fin: "submitted j = length (names A) \<and>
      sum_list (map got (processes j)) = submitted j \<and>
      sum_list (map pushed (processes j)) = submitted j \<and>
      sum_list (map acked (processes j)) = submitted j"
    if h: "f_pc j = F_done \<and> \<not> terminate j \<and> processes j \<noteq> [] \<and>
      list_all (\<lambda>w. w_pc w = W_done) (processes j)"
  proof -
    from h f have s: "submitted j = length (names A)"
      by (simp add: feed_inv_def)
    from h have "list_ex returned (processes j)"
      by (cases "processes j") (simp_all add: returned_def)
    with q have "list_all is_stop (input_queue j)"
      by (simp add: queue_inv_def)
    then have "filter is_work (input_queue j) = []"
      by (rule all_stop_no_work)
    with q have g: "sum_list (map got (processes j)) = submitted j"
      by (simp add: queue_inv_def)
    from h rest have "list_all (\<lambda>w. pushed w = got w) (processes j)"
      and "list_all (\<lambda>w. acked w = got w) (processes j)"
      by (auto simp: list_all_iff)
    then have "sum_list (map pushed (processes j)) = sum_list (map got (processes j))"
      and "sum_list (map acked (processes j)) = sum_list (map got (processes j))"
      by (auto intro: sum_list_map_eq)
    with s g show ?thesis by simp
  qed
  from wi rest fin show ?thesis by blast
qed

theorem acks_equal_submitted_witness:
  "input_queue (parallelize 1 1 ex_model ex_files) = [] \<and>
   f_pc (exec ex_kernel ex_args ex_schedule ex_job) = F_done \<and>
   \<not> terminate (exec ex_kernel ex_args ex_schedule ex_job) \<and>
   m_pc (exec ex_kernel ex_args ex_schedule ex_job) = M_done \<and>
   processes (exec ex_kernel ex_args ex_schedule ex_job) =
     [\<lparr>w_pc = W_done, got = 2, pushed = 2, acked = 2\<rparr>] \<and>
   sum_list (map acked (processes (exec ex_kernel ex_args ex_schedule ex_job))) =
     length (names ex_args)"
proof -
  let ?j = "exec ex_kernel ex_args ex_schedule ex_job"
  have e: "input_queue (parallelize 1 1 ex_model ex_files) = []"
    by (simp add: parallelize_def)
  have h: "f_pc ?j = F_done \<and> \<not> terminate ?j \<and> processes ?j \<noteq> [] \<and>
      list_all (\<lambda>w. w_pc w = W_done) (processes ?j)"
    by (simp add: ex_run_feeder ex_run_workers)
  from acks_equal_submitted [OF e, where K = ex_kernel and A = ex_args and evs = ex_schedule] h
  have "submitted ?j = length (names ex_args) \<and> sum_list (map acked (processes ?j)) = submitted ?j"
    unfolding ex_job_def by blast
  then have "sum_list (map acked (processes ?j)) = length (names ex_args)" by simp
  with e h show ?thesis by (simp add: ex_run_feeder ex_run_workers)
qed

subsection \<open>Schedules and \<open>fit_file\<close>\<close>

lemma exec_append: "exec K A (evs @ evs') j = exec K A evs' (exec K A evs j)"
  by (induction evs arbitrary: j) simp_all

lemma model_step [simp]: "model (step K A ev j) = model j"
  by (cases ev) (auto simp: step_def act_def split: actor.splits)

lemma model_exec [simp]: "model (exec K A evs j) = model j"
  by (induction evs arbitrary: j) simp_all

lemma fit_file_job:
  assumes "cuts (disk j) infile = Some h5"
    and "convolve (model j) (disk j) psf (n_proc j) = Inr m"
  shows "fit_file K j name infile outfile psf cats sched =
          (let j' = exec K \<lparr>names = map fst h5, input_name = name, input_file = infile,
                            output_file = outfile, cats_dir = cats\<rparr> sched
                      (start_processes (j\<lparr>model := m, table := []\<rparr>))
           in if m_pc j' = M_done \<or> m_pc j' = M_aborted then Returned j' else Waiting j')"
  using assms by (simp add: fit_file_def)

subsection \<open>A worker after cancellation\<close>

lemma stuck_act: "stuck j \<Longrightarrow> stuck (act K A a j)"
proof (cases a)
  case Feeder
  assume "stuck j"
  with Feeder show ?thesis
    by (auto simp: act_def stuck_def feed_step_def split: feed_pc.splits)
next
  case (Proc n)
  assume s: "stuck j"
  show ?thesis
  proof (cases "n = 1")
    case True
    with s Proc show ?thesis
      by (simp add: act_def stuck_def worker_step_def Let_def)
  next
    case False
    with s Proc show ?thesis
      by (auto simp: act_def stuck_def worker_step_def set_worker_def Let_def
          split: work_pc.splits sum.splits)
  qed
next
  case Collector
  assume "stuck j"
  with Collector show ?thesis by (simp add: act_def stuck_def)
next
  case MainThread
  assume s: "stuck j"
  then have w1: "alive (processes j ! 1)" and len: "length (processes j) = 2"
    by (simp_all add: stuck_def alive_def)
  show ?thesis
  proof (cases "m_pc j")
    case M_join_feed
    with s MainThread show ?thesis
      by (simp add: act_def stuck_def main_step_def)
  next
    case (M_join_proc i)
    with s have "i = 0 \<or> i = 1" by (auto simp: stuck_def)
    then show ?thesis
    proof
      assume "i = 0"
      with s MainThread M_join_proc show ?thesis
        by (simp add: act_def stuck_def main_step_def)
    next
      assume "i = 1"
      with s MainThread M_join_proc w1 len show ?thesis
        by (simp add: act_def stuck_def main_step_def)
    qed
  qed (use s in \<open>simp_all add: stuck_def\<close>)
qed

lemma stuck_exec: "stuck j \<Longrightarrow> stuck (exec K A (map Run acts) j)"
  by (induction acts arbitrary: j) (simp_all add: step_def stuck_act)

lemma stuck_after_cancel:
  assumes "n_proc j = 2" and "input_queue j = []" and "\<not> terminate j"
    and "cuts (disk j) (input_file A) = Some arch" and "names A = n # ns"
    and "map_of arch n = Some c"
  shows "stuck (exec K A ex_cancel (start_processes j)) \<and>
         submitted (exec K A ex_cancel (start_processes j)) = 1"
  using assms
  by (auto simp: ex_cancel_def step_def act_def feed_step_def worker_step_def worker_interrupt_def
      start_processes_def enqueue_def full_def set_worker_def new_worker_def alive_def stuck_def
      Let_def numeral_2_eq_2)

lemma ex_convolve:
  "0 < np \<Longrightarrow> convolve ex_model ex_files ''PSF/a.psf'' np =
     Inr (ex_model\<lparr>convolved_models := Some \<lparr>shape = [1, 1, 1, 1, 1], elems = [1]\<rparr>\<rparr>)"
proof -
  have s: "shape (models ex_model) = [1, 1, 1, 1, 1]" by (simp add: ex_model_def)
  have ws: "well_shaped (models ex_model)" by (simp add: ex_model_def well_shaped_def)
  have p: "psfs ex_files ''PSF/a.psf'' = Some \<lparr>shape = [1, 1], elems = [1]\<rparr>"
    by (simp add: ex_files_def)
  have c: "convolved_slice (models ex_model) \<lparr>shape = [Suc 0, Suc 0], elems = [1]\<rparr> (Suc 0) (Suc 0) 0 = [1]"
    by (simp add: convolved_slice_def conv_at_def at2_def slice_at_def ex_model_def)
  assume "0 < np"
  from convolve_5d [OF s ws p _ this, of 1 1] show ?thesis
    by (simp add: c)
qed

lemma ex_archive:
  "cuts ex_files ''Cuts/a_cuts.h5'' =
     Some [(''00_0007'', \<lparr>obj = ex_good, seg = ex_mask, rms = ex_good\<rparr>),
           (''00_0008'', \<lparr>obj = ex_bad, seg = ex_mask, rms = ex_good\<rparr>)]"
  by (simp add: ex_files_def)

text \<open>
  C1 fails on the code. Two workers fit the example archive; the first is interrupted
  alone while it holds the first object, which sets the flag. Whatever the threads and
  processes do from then on (no further signal arriving), \<open>fit_file\<close> never returns: it
  waits in \<open>stop_processes\<close> for the second worker, which is alive in a get without
  timeout on an empty input queue, and no sentinel is ever put.
\<close>

theorem cancelled_worker_waits_forever:
  "\<exists>j. fit_file ex_kernel (parallelize 2 100 ex_model ex_files) ''a'' ''Cuts/a_cuts.h5''
          ''Chi/a_chi.h5'' ''PSF/a.psf'' ''Sextracted'' (ex_cancel @ map Run acts) = Waiting j \<and>
        terminate j \<and> w_pc (processes j ! 1) = W_get \<and> alive (processes j ! 1) \<and>
        input_queue j = [] \<and> STOP \<notin> set (put_log j)"
proof -
  let ?par = "parallelize 2 100 ex_model ex_files"
  let ?m = "ex_model\<lparr>convolved_models := Some \<lparr>shape = [1, 1, 1, 1, 1], elems = [1]\<rparr>\<rparr>"
  let ?A = "\<lparr>names = map fst [(''00_0007'', \<lparr>obj = ex_good, seg = ex_mask, rms = ex_good\<rparr>),
                (''00_0008'', \<lparr>obj = ex_bad, seg = ex_mask, rms = ex_good\<rparr>)],
             input_name = ''a'', input_file = ''Cuts/a_cuts.h5'', output_file = ''Chi/a_chi.h5'',
             cats_dir = ''Sextracted''\<rparr>"
  let ?j0 = "?par\<lparr>model := ?m, table := []\<rparr>"
  let ?j1 = "exec ex_kernel ?A ex_cancel (start_processes ?j0)"
  let ?j = "exec ex_kernel ?A (map Run acts) ?j1"
  have cu: "cuts (disk ?par) ''Cuts/a_cuts.h5'' =
      Some [(''00_0007'', \<lparr>obj = ex_good, seg = ex_mask, rms = ex_good\<rparr>),
            (''00_0008'', \<lparr>obj = ex_bad, seg = ex_mask, rms = ex_good\<rparr>)]"
    by (simp add: parallelize_def ex_archive)
  have co: "convolve (model ?par) (disk ?par) ''PSF/a.psf'' (n_proc ?par) = Inr ?m"
    using ex_convolve [of 2] by (simp add: parallelize_def)
  have ff: "fit_file ex_kernel ?par ''a'' ''Cuts/a_cuts.h5'' ''Chi/a_chi.h5'' ''PSF/a.psf''
      ''Sextracted'' (ex_cancel @ map Run acts) =
      (if m_pc ?j = M_done \<or> m_pc ?j = M_aborted then Returned ?j else Waiting ?j)"
    using fit_file_job [OF cu co] by (simp add: exec_append Let_def)
  have s1: "stuck ?j1 \<and> submitted ?j1 = 1"
    by (rule stuck_after_cancel [where arch = "[(''00_0007'', \<lparr>obj = ex_good, seg = ex_mask, rms = ex_good\<rparr>),
            (''00_0008'', \<lparr>obj = ex_bad, seg = ex_mask, rms = ex_good\<rparr>)]"
          and c = "\<lparr>obj = ex_good, seg = ex_mask, rms = ex_good\<rparr>"
          and n = "''00_0007''" and ns = "[''00_0008'']"])
      (simp_all add: parallelize_def ex_archive)
  then have st: "stuck ?j" by (simp add: stuck_exec)
  have "feed_inv ?A ?j1" by (rule feed_inv_exec [OF feed_inv_start])
  with s1 have "no_sentinel ?A ?j1"
    by (intro feed_inv_cancelled) (simp_all add: stuck_def)
  then have "no_sentinel ?A ?j" by (rule no_sentinel_exec)
  then have ns: "STOP \<notin> set (put_log ?j)" by (rule no_sentinel_log)
  from st have "m_pc ?j \<noteq> M_done \<and> m_pc ?j \<noteq> M_aborted"
    by (auto simp: stuck_def split: main_pc.splits)
  with ff have "fit_file ex_kernel ?par ''a'' ''Cuts/a_cuts.h5'' ''Chi/a_chi.h5'' ''PSF/a.psf''
      ''Sextracted'' (ex_cancel @ map Run acts) = Waiting ?j"
    by simp
  moreover from st have "terminate ?j \<and> w_pc (processes ?j ! 1) = W_get \<and>
      alive (processes ?j ! 1) \<and> input_queue ?j = []"
    by (simp add: stuck_def alive_def)
  ultimately show ?thesis using ns by blast
qed

end
